theory Spec2Isabelle
  imports Main "HOL-Library.AList"
begin

unbundle bit_operations_syntax

section \<open>JavaScript number operations used by the reader\<close>

text \<open>
  The decoder of \<^verbatim>\<open>src/index.js\<close> works on JavaScript numbers. Every number that
  occurs is an integer far below \<open>2^53\<close>, so a number is an \<^typ>\<open>int\<close>; the bitwise
  operators first convert their operands to signed 32-bit integers (ToInt32), and a
  shift count is taken modulo 32.
\<close>

definition toInt32 :: "int \<Rightarrow> int" where
  "toInt32 x = (x + 2147483648) mod 4294967296 - 2147483648"

definition js_shl :: "int \<Rightarrow> int \<Rightarrow> int" where
  \<comment> \<open>\<^verbatim>\<open>a << n\<close>\<close>
  "js_shl a n = toInt32 (toInt32 a * 2 ^ nat (n mod 32))"

definition js_sar :: "int \<Rightarrow> int \<Rightarrow> int" where
  \<comment> \<open>\<^verbatim>\<open>a >> n\<close>, the sign-propagating shift\<close>
  "js_sar a n = toInt32 a div 2 ^ nat (n mod 32)"

definition js_and :: "int \<Rightarrow> int \<Rightarrow> int" where
  \<comment> \<open>\<^verbatim>\<open>a & b\<close>\<close>
  "js_and a b = toInt32 a AND toInt32 b"

definition js_rem :: "int \<Rightarrow> int \<Rightarrow> int" where
  \<comment> \<open>\<^verbatim>\<open>a % b\<close> for a positive \<open>b\<close>: the result has the sign of \<open>a\<close>\<close>
  "js_rem a b = (if a < 0 then - ((- a) mod b) else a mod b)"

definition js_floor_div8 :: "int \<Rightarrow> int" where
  \<comment> \<open>\<^verbatim>\<open>Math.floor(x / 8)\<close>\<close>
  "js_floor_div8 x = x div 8"

definition js_ceil_div8 :: "int \<Rightarrow> int" where
  \<comment> \<open>\<^verbatim>\<open>Math.ceil(x / 8)\<close>\<close>
  "js_ceil_div8 x = - ((- x) div 8)"

definition js_trunc_div8 :: "int \<Rightarrow> int" where
  \<comment> \<open>\<^verbatim>\<open>x / 8\<close> used as an array index: the fraction is dropped towards zero\<close>
  "js_trunc_div8 x = (if x < 0 then - ((- x) div 8) else x div 8)"

definition js_mask :: "int \<Rightarrow> int" where
  \<comment> \<open>\<^verbatim>\<open>Math.pow(2, bits) - 1\<close>: exact up to 53 bits; above, the double rounds
      the difference back to the power of two\<close>
  "js_mask bits = (if bits \<le> 53 then 2 ^ nat bits - 1 else 2 ^ nat bits)"

definition js_slice :: "'a list \<Rightarrow> int \<Rightarrow> int \<Rightarrow> 'a list" where
  \<comment> \<open>\<^verbatim>\<open>Array.prototype.slice(start, end)\<close>: negative indices count from the end,
      both are clamped to the array\<close>
  "js_slice xs start end =
     (let len = int (length xs);
          k = (if start < 0 then max (len + start) 0 else min start len);
          fin = (if end < 0 then max (len + end) 0 else min end len)
      in take (nat (fin - k)) (drop (nat k) xs))"

definition array_set :: "'a \<Rightarrow> 'a list \<Rightarrow> nat \<Rightarrow> 'a \<Rightarrow> 'a list" where
  \<comment> \<open>\<^verbatim>\<open>xs[i] = v\<close>: an index past the end extends the array (the gap reads as
      the filler \<open>u\<close>, JavaScript's undefined)\<close>
  "array_set u xs i v =
     (if i < length xs then xs[i := v] else xs @ replicate (i - length xs) u @ [v])"

section \<open>The bit reader\<close>

text \<open>
  \<^verbatim>\<open>bitReader(str)\<close> splits the input into its character codes and keeps a bit
  cursor. The input is the binary string that \<^verbatim>\<open>atob\<close> returns in the only caller:
  every character is one byte, so the input is a \<^typ>\<open>string\<close>.
  The reader never checks the cursor against the end of the input.
\<close>

datatype error =
    TypeError string
  | RangeError string
  | UnableToDeserialize
  | UnmappedPrimitive int
  | UnableToDeserializeRecord int

record reader =
  bytes :: "int list"
  bit_pos :: int

definition bitReader :: "string \<Rightarrow> error + reader" where
  "bitReader str =
     (let bs = map of_char str
      in case bs of
           [] \<Rightarrow> Inl UnableToDeserialize
         | b # _ \<Rightarrow> if b \<noteq> 0 then Inl UnableToDeserialize
                    else Inr \<lparr>bytes = bs, bit_pos = 0\<rparr>)"

fun reduce_loop :: "int \<Rightarrow> int \<Rightarrow> int list \<Rightarrow> int" where
  "reduce_loop result k [] = result"
| "reduce_loop result k (b # array) = reduce_loop (result + js_shl b (k * 8)) (k + 1) array"

definition reduce :: "int list \<Rightarrow> int" where
  "reduce array = reduce_loop 0 0 array"

definition read :: "int \<Rightarrow> reader \<Rightarrow> int \<times> reader" where
  "read bits r =
     (let startByte = js_floor_div8 (bit_pos r);
          endByte = js_ceil_div8 (bit_pos r + bits);
          b = js_slice (bytes r) startByte endByte;
          result = reduce b;
          mask = js_mask bits;
          result = js_sar result (js_rem (bit_pos r) 8);
          f = js_and result mask
      in (f, r\<lparr>bit_pos := bit_pos r + bits\<rparr>))"

definition readByteArray :: "int \<Rightarrow> reader \<Rightarrow> int list \<times> reader" where
  "readByteArray count r =
     (js_slice (bytes r) (js_trunc_div8 (bit_pos r)) (js_trunc_div8 (bit_pos r + 8 * count)),
      r\<lparr>bit_pos := bit_pos r + count * 8\<rparr>)"

definition read8 :: "reader \<Rightarrow> int \<times> reader" where
  "read8 = read 8"

definition read16 :: "reader \<Rightarrow> int \<times> reader" where
  "read16 = read 16"

definition read32 :: "reader \<Rightarrow> int \<times> reader" where
  "read32 = read 32"

definition read64 :: "reader \<Rightarrow> int \<times> reader" where
  "read64 = read 64"

text \<open>
  The loop of \<^verbatim>\<open>readLengthPrefixedString\<close>: \<open>n\<close> is the number of rounds left
  (five at the start).
\<close>

fun length_loop :: "nat \<Rightarrow> int \<Rightarrow> int \<Rightarrow> reader \<Rightarrow> int \<times> reader" where
  "length_loop 0 multiplier len r = (len, r)"
| "length_loop (Suc n) multiplier len r =
     (let (nextLength, r1) = read 7 r;
          len = len + js_shl nextLength (multiplier * 7);
          multiplier = multiplier + 1;
          (cont, r2) = read 1 r1
      in if cont = 0 then (len, r2) else length_loop n multiplier len r2)"

definition readLength :: "reader \<Rightarrow> int \<times> reader" where
  "readLength r = length_loop 5 0 0 r"

definition readLengthPrefixedString :: "reader \<Rightarrow> string \<times> reader" where
  "readLengthPrefixedString r =
     (let (len, r1) = readLength r;
          (charArray, r2) = readByteArray len r1
      in (map char_of charArray, r2))"

section \<open>Values, composites and the parser state\<close>

text \<open>
  The values that the parser stores: JavaScript primitives, a primitive array (built once,
  never changed afterwards, so it is kept by value), the placeholder \<^verbatim>\<open>{ref: id}\<close> of
  a member reference, and a reference to a composite. Composites are mutable and shared
  (the object table, the parent's \<^verbatim>\<open>memberValues\<close> and the stack all point to the same
  object), so they live in a store and are named by their address. A single or double is
  kept as the bit pattern written into the typed array.
\<close>

datatype jsval =
    JUndefined
  | JNull
  | JBool bool
  | JNum int
  | JSingle int
  | JDouble int int
  | JStr string
  | JArr "jsval list"
  | JRef int
  | JObj nat

datatype addinfo =
    AIUndefined
  | AINull
  | AINum int
  | AIStr string
  | AIClass string int

record composite =
  objectId :: int
  name :: "string option"
  memberNames :: "string list option"
  memberTypes :: "int list option"
  additionalInfos :: "addinfo list option"
  libraryId :: "int option"
  memberValues :: "jsval list"
  rank :: "int option"
  lengths :: "int list option"
  lowerBounds :: "int list option"
  itemType :: "int option"

text \<open>
  The parser state of \<^verbatim>\<open>deserialize\<close>. \<open>objects\<close> is the object table in the order
  in which its keys were first inserted; \<open>references\<close> holds, for each closure pushed by a
  MemberReference record, the composite, the slot and the referenced id it captured;
  \<open>objectStack\<close> has its tip last; \<open>heap\<close> is the store of composites.
\<close>

record state =
  libraries :: "(int \<times> string) list"
  objects :: "(int \<times> jsval) list"
  references :: "(nat \<times> nat \<times> int) list"
  objectStack :: "nat list"
  heap :: "composite list"
  rdr :: reader
  header :: "(int \<times> int \<times> int \<times> int) option"

definition initial_state :: "reader \<Rightarrow> state" where
  "initial_state r =
     \<lparr>libraries = [], objects = [], references = [], objectStack = [], heap = [],
      rdr = r, header = None\<rparr>"

section \<open>Record bodies\<close>

definition deserializeHeader :: "reader \<Rightarrow> (int \<times> int \<times> int \<times> int) \<times> reader" where
  "deserializeHeader r =
     (let (rootId, r) = read32 r;
          (headerId, r) = read32 r;
          (majorVersion, r) = read32 r;
          (minorVersion, r) = read32 r
      in ((rootId, headerId, majorVersion, minorVersion), r))"

definition deserializeBinaryLibrary :: "reader \<Rightarrow> (int \<times> string) \<times> reader" where
  "deserializeBinaryLibrary r =
     (let (id, r) = read32 r;
          (name, r) = readLengthPrefixedString r
      in ((id, name), r))"

definition deserializeAdditionalTypeInfo :: "reader \<Rightarrow> int \<Rightarrow> addinfo \<times> reader" where
  "deserializeAdditionalTypeInfo r type =
     (if type = 1 \<or> type = 2 \<or> type = 5 \<or> type = 6 then (AINull, r)
      else if type = 0 then (let (v, r) = read8 r in (AINum v, r))
      else if type = 3 then (let (v, r) = readLengthPrefixedString r in (AIStr v, r))
      else if type = 4 then
        (let (className, r) = readLengthPrefixedString r;
             (libraryId, r) = read32 r
         in (AIClass className libraryId, r))
      else if type = 7 then (let (v, r) = read8 r in (AINum v, r))
      else (AIUndefined, r))"

fun read_names :: "nat \<Rightarrow> reader \<Rightarrow> string list \<times> reader" where
  "read_names 0 r = ([], r)"
| "read_names (Suc n) r =
     (let (x, r) = readLengthPrefixedString r;
          (xs, r) = read_names n r
      in (x # xs, r))"

fun read_types :: "nat \<Rightarrow> reader \<Rightarrow> int list \<times> reader" where
  "read_types 0 r = ([], r)"
| "read_types (Suc n) r =
     (let (x, r) = read8 r;
          (xs, r) = read_types n r
      in (x # xs, r))"

fun read_infos :: "int list \<Rightarrow> reader \<Rightarrow> addinfo list \<times> reader" where
  "read_infos [] r = ([], r)"
| "read_infos (t # ts) r =
     (let (x, r) = deserializeAdditionalTypeInfo r t;
          (xs, r) = read_infos ts r
      in (x # xs, r))"

fun read_int32s :: "nat \<Rightarrow> reader \<Rightarrow> int list \<times> reader" where
  "read_int32s 0 r = ([], r)"
| "read_int32s (Suc n) r =
     (let (x, r) = read32 r;
          (xs, r) = read_int32s n r
      in (x # xs, r))"

definition deserializeClassWithMembersAndTypes :: "reader \<Rightarrow> bool \<Rightarrow> composite \<times> reader" where
  "deserializeClassWithMembersAndTypes r isSystem =
     (let (objectId, r) = read32 r;
          (name, r) = readLengthPrefixedString r;
          (memberCount, r) = read32 r;
          (memberNames, r) = read_names (nat memberCount) r;
          (memberTypes, r) = read_types (nat memberCount) r;
          (additionalInfos, r) = read_infos memberTypes r;
          (libraryId, r) = (if \<not> isSystem then (let (l, r) = read32 r in (Some l, r))
                            else (None, r))
      in (\<lparr>objectId = objectId, name = Some name, memberNames = Some memberNames,
           memberTypes = Some memberTypes, additionalInfos = Some additionalInfos,
           libraryId = libraryId, memberValues = [], rank = None, lengths = None,
           lowerBounds = None, itemType = None\<rparr>, r))"

definition deserializeBinaryObjectString :: "reader \<Rightarrow> (int \<times> string) \<times> reader" where
  "deserializeBinaryObjectString r =
     (let (objectId, r) = read32 r;
          (v, r) = readLengthPrefixedString r
      in ((objectId, v), r))"

definition deserializeMemberReference :: "reader \<Rightarrow> int \<times> reader" where
  "deserializeMemberReference r = read32 r"

text \<open>
  \<^verbatim>\<open>deserializePrimitiveType(reader, type)\<close>. The reader object returned by
  \<^verbatim>\<open>bitReader\<close> has the properties peek, read, read8, read16, read32, read64,
  readSingle, readDouble, readLengthPrefixedString and bytes, and no read7 or read1: the
  call \<^verbatim>\<open>reader.read7()\<close> of case 10 raises a TypeError before anything is read. A
  type that matches no case of the switch gives undefined.
\<close>

definition readSingle :: "reader \<Rightarrow> jsval \<times> reader" where
  "readSingle r = (let (w, r) = read 32 r in (JSingle (w mod 4294967296), r))"

definition readDouble :: "reader \<Rightarrow> jsval \<times> reader" where
  "readDouble r =
     (let (lo, r) = read 32 r;
          (hi, r) = read 32 r
      in (JDouble (lo mod 4294967296) (hi mod 4294967296), r))"

definition deserializePrimitiveType :: "reader \<Rightarrow> addinfo \<Rightarrow> error + jsval \<times> reader" where
  "deserializePrimitiveType r type =
     (case type of
        AINum t \<Rightarrow>
          (if t = 0 then Inl (UnmappedPrimitive 0)
           else if t = 1 then (let (v, r) = read8 r in Inr (JBool (v \<noteq> 0), r))
           else if t = 2 then (let (v, r) = read8 r in Inr (JNum v, r))
           else if t = 3 then (let (v, r) = read8 r in Inr (JNum v, r))
           else if t = 4 then Inl (UnmappedPrimitive 4)
           else if t = 5 then (let (v, r) = readLengthPrefixedString r in Inr (JStr v, r))
           else if t = 6 then Inr (readDouble r)
           else if t = 7 then (let (v, r) = read16 r in Inr (JNum v, r))
           else if t = 8 then (let (v, r) = read32 r in Inr (JNum v, r))
           else if t = 9 then (let (v, r) = read64 r in Inr (JNum v, r))
           else if t = 10 then Inl (TypeError ''reader.read7 is not a function'')
           else if t = 11 then Inr (readSingle r)
           else if t = 12 then (let (v, r) = read64 r in Inr (JNum v, r))
           else if t = 13 then (let (v, r) = read64 r in Inr (JNum v, r))
           else if t = 14 then (let (v, r) = read16 r in Inr (JNum v, r))
           else if t = 15 then (let (v, r) = read32 r in Inr (JNum v, r))
           else if t = 16 then (let (v, r) = read64 r in Inr (JNum v, r))
           else if t = 17 then Inr (JNull, r)
           else if t = 18 then (let (v, r) = readLengthPrefixedString r in Inr (JStr v, r))
           else Inr (JUndefined, r))
      | _ \<Rightarrow> Inr (JUndefined, r))"

fun read_primitives :: "nat \<Rightarrow> addinfo \<Rightarrow> reader \<Rightarrow> error + jsval list \<times> reader" where
  "read_primitives 0 type r = Inr ([], r)"
| "read_primitives (Suc n) type r =
     (case deserializePrimitiveType r type of
        Inl e \<Rightarrow> Inl e
      | Inr (x, r) \<Rightarrow>
          (case read_primitives n type r of
             Inl e \<Rightarrow> Inl e
           | Inr (xs, r) \<Rightarrow> Inr (x # xs, r)))"

section \<open>The main loop of deserialize\<close>

datatype step_result =
    Throw error
  | Continue state
  | Finish "composite list" jsval

definition currentObject :: "state \<Rightarrow> nat option" where
  \<comment> \<open>\<^verbatim>\<open>state.objectStack[state.objectStack.length - 1]\<close>\<close>
  "currentObject s = (if objectStack s = [] then None else Some (last (objectStack s)))"

definition push_values :: "nat \<Rightarrow> jsval list \<Rightarrow> composite list \<Rightarrow> composite list" where
  \<comment> \<open>\<^verbatim>\<open>obj.memberValues.push(...)\<close> on the composite at address \<open>a\<close>\<close>
  "push_values a vs h = h[a := (h ! a)\<lparr>memberValues := memberValues (h ! a) @ vs\<rparr>]"

definition set_value :: "nat \<Rightarrow> nat \<Rightarrow> jsval \<Rightarrow> composite list \<Rightarrow> composite list" where
  \<comment> \<open>\<^verbatim>\<open>obj.memberValues[idx] = v\<close> on the composite at address \<open>a\<close>\<close>
  "set_value a idx v h =
     h[a := (h ! a)\<lparr>memberValues := array_set JUndefined (memberValues (h ! a)) idx v\<rparr>]"

definition empty_object :: composite where
  "empty_object =
     \<lparr>objectId = 0, name = None, memberNames = None, memberTypes = None,
      additionalInfos = None, libraryId = None, memberValues = [], rank = None,
      lengths = None, lowerBounds = None, itemType = None\<rparr>"

definition spread :: "composite list \<Rightarrow> jsval option \<Rightarrow> composite" where
  \<comment> \<open>\<^verbatim>\<open>{...x}\<close>: a shallow copy of a composite; of undefined, a string or a primitive
      array, an object with none of the fields the parser reads\<close>
  "spread h x = (case x of Some (JObj a) \<Rightarrow> h ! a | _ \<Rightarrow> empty_object)"

definition register_composite :: "bool \<Rightarrow> composite \<Rightarrow> state \<Rightarrow> state" where
  \<comment> \<open>allocate the new composite, append it to the parent when asked to and when there
      is one, push it on the stack and enter it in the object table\<close>
  "register_composite toParent cls s =
     (let n = length (heap s);
          h = heap s @ [cls];
          h = (case currentObject s of
                 Some a \<Rightarrow> if toParent then push_values a [JObj n] h else h
               | None \<Rightarrow> h)
      in s\<lparr>heap := h, objectStack := objectStack s @ [n],
            objects := AList.update (objectId cls) (JObj n) (objects s)\<rparr>)"

definition record_ClassWithId :: "state \<Rightarrow> step_result" where
  "record_ClassWithId s =
     (let (objId, r) = read32 (rdr s);
          (metadataId, r) = read32 r;
          cls1 = spread (heap s) (map_of (objects s) metadataId);
          cls1 = cls1\<lparr>memberValues := []\<rparr>;
          cls1 = cls1\<lparr>objectId := objId\<rparr>
      in Continue (register_composite True cls1 (s\<lparr>rdr := r\<rparr>)))"

definition record_ClassWithMembersAndTypes :: "bool \<Rightarrow> state \<Rightarrow> step_result" where
  "record_ClassWithMembersAndTypes isSystem s =
     (let (cls, r) = deserializeClassWithMembersAndTypes (rdr s) isSystem
      in Continue (register_composite True cls (s\<lparr>rdr := r\<rparr>)))"

definition record_BinaryObjectString :: "state \<Rightarrow> step_result" where
  "record_BinaryObjectString s =
     (let ((objId, v), r) = deserializeBinaryObjectString (rdr s)
      in case currentObject s of
           None \<Rightarrow> Throw (TypeError ''Cannot read properties of undefined'')
         | Some a \<Rightarrow>
             Continue (s\<lparr>rdr := r, objects := AList.update objId (JStr v) (objects s),
                         heap := push_values a [JStr v] (heap s)\<rparr>))"

definition array_fill :: "int \<Rightarrow> 'a \<Rightarrow> error + 'a list" where
  \<comment> \<open>\<^verbatim>\<open>Array(n).fill(x)\<close>\<close>
  "array_fill n x =
     (if n < 0 \<or> 4294967295 < n then Inl (RangeError ''Invalid array length'')
      else Inr (replicate (nat n) x))"

definition reduce_sum :: "int list \<Rightarrow> error + int" where
  \<comment> \<open>\<^verbatim>\<open>lengths.reduce((x,y) => x + y)\<close>, without an initial value\<close>
  "reduce_sum xs =
     (case xs of
        [] \<Rightarrow> Inl (TypeError ''Reduce of empty array with no initial value'')
      | x # ys \<Rightarrow> Inr (foldl (+) x ys))"

definition record_BinaryArray :: "state \<Rightarrow> step_result" where
  "record_BinaryArray s =
     (let (binaryArrayObjectId, r) = read32 (rdr s);
          (binaryArrayType, r) = read8 r;
          (rnk, r) = read32 r;
          (lens, r) = read_int32s (nat rnk) r;
          (lowers, r) = (if binaryArrayType > 2 then read_int32s (nat rnk) r else ([], r));
          (binaryArrayItemType, r) = read8 r;
          (additionalInfo, r) = deserializeAdditionalTypeInfo r binaryArrayItemType
      in case reduce_sum lens of
           Inl e \<Rightarrow> Throw e
         | Inr totalLength \<Rightarrow>
             (case array_fill totalLength additionalInfo of
                Inl e \<Rightarrow> Throw e
              | Inr infos \<Rightarrow>
                  (case array_fill totalLength binaryArrayItemType of
                     Inl e \<Rightarrow> Throw e
                   | Inr types \<Rightarrow>
                       Continue (register_composite False
                         \<lparr>objectId = binaryArrayObjectId, name = None, memberNames = None,
                          memberTypes = Some types, additionalInfos = Some infos,
                          libraryId = None, memberValues = [], rank = Some rnk,
                          lengths = Some lens, lowerBounds = Some lowers,
                          itemType = Some binaryArrayItemType\<rparr>
                         (s\<lparr>rdr := r\<rparr>)))))"

definition record_MemberReference :: "state \<Rightarrow> step_result" where
  "record_MemberReference s =
     (let (reference, r) = deserializeMemberReference (rdr s)
      in case currentObject s of
           None \<Rightarrow> Throw (TypeError ''Cannot read properties of undefined'')
         | Some a \<Rightarrow>
             (let idx = length (memberValues (heap s ! a))
              in Continue (s\<lparr>rdr := r, references := references s @ [(a, idx, reference)],
                             heap := push_values a [JRef reference] (heap s)\<rparr>)))"

definition record_ObjectNull :: "state \<Rightarrow> step_result" where
  "record_ObjectNull s =
     (case currentObject s of
        None \<Rightarrow> Throw (TypeError ''Cannot read properties of undefined'')
      | Some a \<Rightarrow> Continue (s\<lparr>heap := push_values a [JNull] (heap s)\<rparr>))"

definition run_reference :: "(int \<times> jsval) list \<Rightarrow> composite list \<Rightarrow> nat \<times> nat \<times> int \<Rightarrow> composite list" where
  \<comment> \<open>one closure \<^verbatim>\<open>() => currentObject.memberValues[idx] = state.objects[reference]\<close>;
      a missing key reads as undefined\<close>
  "run_reference objs h ref =
     (case ref of (a, idx, reference) \<Rightarrow>
        set_value a idx (case map_of objs reference of None \<Rightarrow> JUndefined | Some v \<Rightarrow> v) h)"

definition is_array_index :: "int \<Rightarrow> bool" where
  "is_array_index k = (0 \<le> k \<and> k < 4294967295)"

definition object_values :: "(int \<times> jsval) list \<Rightarrow> jsval list" where
  \<comment> \<open>\<^verbatim>\<open>Object.values(obj)\<close>: the integer keys in ascending order first, then the
      other keys in the order of their insertion\<close>
  "object_values objs =
     map snd (sort_key fst (filter (\<lambda>p. is_array_index (fst p)) objs)
              @ filter (\<lambda>p. \<not> is_array_index (fst p)) objs)"

definition record_MessageEnd :: "state \<Rightarrow> step_result" where
  "record_MessageEnd s =
     (let h = foldl (run_reference (objects s)) (heap s) (references s);
          c = (case object_values (objects s) of [] \<Rightarrow> JUndefined | v # _ \<Rightarrow> v)
      in Finish h c)"

definition record_BinaryLibrary :: "state \<Rightarrow> step_result" where
  "record_BinaryLibrary s =
     (let (lib, r) = deserializeBinaryLibrary (rdr s)
      in Continue (s\<lparr>rdr := r, libraries := libraries s @ [lib]\<rparr>))"

definition record_ObjectNull256 :: "state \<Rightarrow> step_result" where
  "record_ObjectNull256 s =
     (let (nullCount, r) = read8 (rdr s)
      in case currentObject s of
           None \<Rightarrow> Throw (TypeError ''Cannot read properties of undefined'')
         | Some a \<Rightarrow>
             Continue (s\<lparr>rdr := r,
                         heap := push_values a (replicate (nat nullCount) JNull) (heap s)\<rparr>))"

definition record_ArraySinglePrimitive :: "state \<Rightarrow> step_result" where
  "record_ArraySinglePrimitive s =
     (let (arrayObjectId, r) = read32 (rdr s);
          (len, r) = read32 r;
          (type, r) = read8 r
      in case read_primitives (nat len) (AINum type) r of
           Inl e \<Rightarrow> Throw e
         | Inr (array, r) \<Rightarrow>
             Continue (s\<lparr>rdr := r,
                         objects := AList.update arrayObjectId (JArr array) (objects s)\<rparr>))"

definition record_Header :: "state \<Rightarrow> step_result" where
  "record_Header s =
     (let (hdr, r) = deserializeHeader (rdr s)
      in Continue (s\<lparr>rdr := r, header := Some hdr\<rparr>))"

definition read_record :: "state \<Rightarrow> step_result" where
  "read_record s =
     (let (record, r) = read8 (rdr s);
          s = s\<lparr>rdr := r\<rparr>
      in if record = 0 then record_Header s
         else if record = 1 then record_ClassWithId s
         else if record = 4 \<or> record = 5 then record_ClassWithMembersAndTypes (record = 4) s
         else if record = 6 then record_BinaryObjectString s
         else if record = 7 then record_BinaryArray s
         else if record = 9 then record_MemberReference s
         else if record = 10 then record_ObjectNull s
         else if record = 11 then record_MessageEnd s
         else if record = 12 then record_BinaryLibrary s
         else if record = 13 then record_ObjectNull256 s
         else if record = 15 then record_ArraySinglePrimitive s
         else Throw (UnableToDeserializeRecord record))"

definition primitive_member :: "nat \<Rightarrow> nat \<Rightarrow> state \<Rightarrow> step_result" where
  \<comment> \<open>the un-prefixed primitive member at slot \<open>idx\<close> of the composite at \<open>a\<close>\<close>
  "primitive_member a idx s =
     (case additionalInfos (heap s ! a) of
        None \<Rightarrow> Throw (TypeError ''Cannot read properties of undefined'')
      | Some infos \<Rightarrow>
          (case deserializePrimitiveType (rdr s)
                  (if idx < length infos then infos ! idx else AIUndefined) of
             Inl e \<Rightarrow> Throw e
           | Inr (v, r) \<Rightarrow> Continue (s\<lparr>rdr := r, heap := set_value a idx v (heap s)\<rparr>)))"

definition step :: "state \<Rightarrow> step_result" where
  \<comment> \<open>one round of the \<^verbatim>\<open>while (true)\<close> loop\<close>
  "step s =
     (case currentObject s of
        None \<Rightarrow> read_record s
      | Some a \<Rightarrow>
          (let currentMemberIdx = length (memberValues (heap s ! a))
           in case memberTypes (heap s ! a) of
                None \<Rightarrow> Throw (TypeError ''Cannot read properties of undefined'')
              | Some types \<Rightarrow>
                  if currentMemberIdx < length types then
                    (if types ! currentMemberIdx = 0 then primitive_member a currentMemberIdx s
                     else read_record s)
                  else Continue (s\<lparr>objectStack := butlast (objectStack s)\<rparr>)))"

text \<open>
  The loop may run forever (a reader past the end of the input keeps returning zero, which
  is the tag of the header record), so it is a partial function: \<open>None\<close> is "never
  returns". \<open>run\<close> is the same loop cut off after \<open>n\<close> rounds.
\<close>

partial_function (option) loop :: "state \<Rightarrow> (error + composite list \<times> jsval) option" where
  "loop s =
     (case step s of
        Throw e \<Rightarrow> Some (Inl e)
      | Finish h c \<Rightarrow> Some (Inr (h, c))
      | Continue s' \<Rightarrow> loop s')"

fun run :: "nat \<Rightarrow> state \<Rightarrow> step_result" where
  "run 0 s = Continue s"
| "run (Suc n) s =
     (case step s of
        Continue s' \<Rightarrow> run n s'
      | res \<Rightarrow> res)"

section \<open>The projection\<close>

text \<open>
  The result of \<^verbatim>\<open>mapMembers\<close>: a simple value returned as it is, the array built for
  a binary array, or the object \<^verbatim>\<open>members\<close>, kept as the list of its own properties in
  the order of their first assignment. The list is read as a mapping: the order in which
  JavaScript enumerates the properties (names that are integers first, ascending) is not
  modelled.

  \<^verbatim>\<open>members[name] = v\<close> on an object literal creates or overwrites the own property
  \<open>name\<close>, except for the name \<^verbatim>\<open>__proto__\<close>: that assignment reaches the setter
  inherited from \<^verbatim>\<open>Object.prototype\<close> and creates no own property.
\<close>

datatype pvalue =
    PSimple jsval
  | PList "pvalue list"
  | PMap "(string \<times> pvalue) list"

definition assign_member :: "string \<Rightarrow> pvalue \<Rightarrow> (string \<times> pvalue) list \<Rightarrow> (string \<times> pvalue) list" where
  "assign_member nm v members =
     (if nm = ''__proto__'' then members else AList.update nm v members)"

definition value_at :: "jsval list \<Rightarrow> nat \<Rightarrow> jsval" where
  \<comment> \<open>\<^verbatim>\<open>memberValues[idx]\<close>: undefined past the end\<close>
  "value_at vs idx = (if idx < length vs then vs ! idx else JUndefined)"

fun map_values :: "(jsval \<Rightarrow> pvalue option) \<Rightarrow> jsval list \<Rightarrow> pvalue list option" where
  "map_values f [] = Some []"
| "map_values f (v # vs) =
     (case f v of
        None \<Rightarrow> None
      | Some x \<Rightarrow> (case map_values f vs of None \<Rightarrow> None | Some xs \<Rightarrow> Some (x # xs)))"

fun members_loop ::
  "(jsval \<Rightarrow> pvalue option) \<Rightarrow> string list \<Rightarrow> jsval list \<Rightarrow> nat \<Rightarrow> (string \<times> pvalue) list
     \<Rightarrow> pvalue option" where
  "members_loop f [] vs idx members = Some (PMap members)"
| "members_loop f (nm # nms) vs idx members =
     (if nm = ''_items'' \<or> nm = ''value__'' then f (value_at vs idx)
      else (case f (value_at vs idx) of
              None \<Rightarrow> None
            | Some x \<Rightarrow> members_loop f nms vs (Suc idx) (assign_member nm x members)))"

text \<open>
  \<^verbatim>\<open>mapMembers\<close> recurses through the object graph, which may be cyclic after the
  fix-ups. The first argument is the number of nested calls that the call stack still has
  room for; \<open>None\<close> is the overflow of the call stack.
\<close>

fun mapMembers :: "nat \<Rightarrow> composite list \<Rightarrow> jsval \<Rightarrow> pvalue option" where
  "mapMembers 0 h obj = None"
| "mapMembers (Suc d) h obj =
     (case obj of
        JObj a \<Rightarrow>
          (if (case rank (h ! a) of None \<Rightarrow> False | Some k \<Rightarrow> k \<noteq> 0)
           then map_option PList (map_values (mapMembers d h) (memberValues (h ! a)))
           else members_loop (mapMembers d h)
                  (case memberNames (h ! a) of None \<Rightarrow> [] | Some nms \<Rightarrow> nms)
                  (memberValues (h ! a)) 0 [])
      | _ \<Rightarrow> Some (PSimple obj))"

section \<open>deserialize\<close>

definition project_root :: "nat \<Rightarrow> composite list \<times> jsval \<Rightarrow> error + pvalue" where
  "project_root depth hc =
     (case mapMembers depth (fst hc) (snd hc) of
        None \<Rightarrow> Inl (RangeError ''Maximum call stack size exceeded'')
      | Some v \<Rightarrow> Inr v)"

definition deserialize :: "nat \<Rightarrow> string \<Rightarrow> (error + pvalue) option" where
  \<comment> \<open>\<open>depth\<close> is the room of the call stack; \<open>None\<close> is "never returns"\<close>
  "deserialize depth str =
     (case bitReader str of
        Inl e \<Rightarrow> Some (Inl e)
      | Inr r \<Rightarrow>
          (case loop (initial_state r) of
             None \<Rightarrow> None
           | Some (Inl e) \<Rightarrow> Some (Inl e)
           | Some (Inr hc) \<Rightarrow> Some (project_root depth hc)))"

section \<open>Notions used to state the properties\<close>









definition sbyte_stream :: string where
  \<comment> \<open>header; system class 1 "A" with the member "x" of primitive type 10; the byte 0x80;
      MessageEnd\<close>
  "sbyte_stream =
     [CHR 0x00, CHR 0x01, CHR 0x00, CHR 0x00, CHR 0x00, CHR 0xFF, CHR 0xFF, CHR 0xFF, CHR 0xFF,
      CHR 0x01, CHR 0x00, CHR 0x00, CHR 0x00, CHR 0x00, CHR 0x00, CHR 0x00, CHR 0x00,
      CHR 0x04, CHR 0x01, CHR 0x00, CHR 0x00, CHR 0x00, CHR 0x01, CHR 0x41,
      CHR 0x01, CHR 0x00, CHR 0x00, CHR 0x00, CHR 0x01, CHR 0x78, CHR 0x00, CHR 0x0A,
      CHR 0x80, CHR 0x0B]"

definition two_roots_stream :: string where
  \<comment> \<open>header with root id 2; system class 2 "A" with the byte member "x" = 7; system class 1
      "B" with the byte member "y" = 9; MessageEnd\<close>
  "two_roots_stream =
     [CHR 0x00, CHR 0x02, CHR 0x00, CHR 0x00, CHR 0x00, CHR 0xFF, CHR 0xFF, CHR 0xFF, CHR 0xFF,
      CHR 0x01, CHR 0x00, CHR 0x00, CHR 0x00, CHR 0x00, CHR 0x00, CHR 0x00, CHR 0x00, CHR 0x04,
      CHR 0x02, CHR 0x00, CHR 0x00, CHR 0x00, CHR 0x01, CHR 0x41, CHR 0x01, CHR 0x00, CHR 0x00,
      CHR 0x00, CHR 0x01, CHR 0x78, CHR 0x00, CHR 0x02, CHR 0x07, CHR 0x04, CHR 0x01, CHR 0x00,
      CHR 0x00, CHR 0x00, CHR 0x01, CHR 0x42, CHR 0x01, CHR 0x00, CHR 0x00, CHR 0x00, CHR 0x01,
      CHR 0x79, CHR 0x00, CHR 0x02, CHR 0x09, CHR 0x0B]"


definition truncated_stream :: string where
  \<comment> \<open>the header tag alone: the input ends in the middle of the header record\<close>
  "truncated_stream =
     [CHR 0x00]"

definition null256_stream :: string where
  \<comment> \<open>header; system class 1 "A" with the one string member "x"; ObjectNull256 with count 5;
      MessageEnd\<close>
  "null256_stream =
     [CHR 0x00, CHR 0x01, CHR 0x00, CHR 0x00, CHR 0x00, CHR 0xFF, CHR 0xFF, CHR 0xFF, CHR 0xFF,
      CHR 0x01, CHR 0x00, CHR 0x00, CHR 0x00, CHR 0x00, CHR 0x00, CHR 0x00, CHR 0x00, CHR 0x04,
      CHR 0x01, CHR 0x00, CHR 0x00, CHR 0x00, CHR 0x01, CHR 0x41, CHR 0x01, CHR 0x00, CHR 0x00,
      CHR 0x00, CHR 0x01, CHR 0x78, CHR 0x01, CHR 0x0D, CHR 0x05, CHR 0x0B]"

definition node_stream :: string where
  \<comment> \<open>header; system class 1 "N" with the object member "next"; as that member, ClassWithId
      with object id 2 and metadata id 1; ObjectNull for its member; MessageEnd\<close>
  "node_stream =
     [CHR 0x00, CHR 0x01, CHR 0x00, CHR 0x00, CHR 0x00, CHR 0xFF, CHR 0xFF, CHR 0xFF, CHR 0xFF,
      CHR 0x01, CHR 0x00, CHR 0x00, CHR 0x00, CHR 0x00, CHR 0x00, CHR 0x00, CHR 0x00, CHR 0x04,
      CHR 0x01, CHR 0x00, CHR 0x00, CHR 0x00, CHR 0x01, CHR 0x4E, CHR 0x01, CHR 0x00, CHR 0x00,
      CHR 0x00, CHR 0x04, CHR 0x6E, CHR 0x65, CHR 0x78, CHR 0x74, CHR 0x02, CHR 0x01, CHR 0x02,
      CHR 0x00, CHR 0x00, CHR 0x00, CHR 0x01, CHR 0x00, CHR 0x00, CHR 0x00, CHR 0x0A, CHR 0x0B]"

definition rank0_stream :: string where
  \<comment> \<open>header; BinaryArray with object id 1, array type 0, rank 0, item type String; MessageEnd\<close>
  "rank0_stream =
     [CHR 0x00, CHR 0x01, CHR 0x00, CHR 0x00, CHR 0x00, CHR 0xFF, CHR 0xFF, CHR 0xFF, CHR 0xFF,
      CHR 0x01, CHR 0x00, CHR 0x00, CHR 0x00, CHR 0x00, CHR 0x00, CHR 0x00, CHR 0x00, CHR 0x07,
      CHR 0x01, CHR 0x00, CHR 0x00, CHR 0x00, CHR 0x00, CHR 0x00, CHR 0x00, CHR 0x00, CHR 0x00,
      CHR 0x01, CHR 0x0B]"

definition proto_stream :: string where
  \<comment> \<open>header; system class 1 "A" with the byte member "__proto__" = 1; MessageEnd\<close>
  "proto_stream =
     [CHR 0x00, CHR 0x01, CHR 0x00, CHR 0x00, CHR 0x00, CHR 0xFF, CHR 0xFF, CHR 0xFF, CHR 0xFF,
      CHR 0x01, CHR 0x00, CHR 0x00, CHR 0x00, CHR 0x00, CHR 0x00, CHR 0x00, CHR 0x00, CHR 0x04,
      CHR 0x01, CHR 0x00, CHR 0x00, CHR 0x00, CHR 0x01, CHR 0x41, CHR 0x01, CHR 0x00, CHR 0x00,
      CHR 0x00, CHR 0x09, CHR 0x5F, CHR 0x5F, CHR 0x70, CHR 0x72, CHR 0x6F, CHR 0x74, CHR 0x6F,
      CHR 0x5F, CHR 0x5F, CHR 0x00, CHR 0x02, CHR 0x01, CHR 0x0B]"

definition items_stream :: string where
  \<comment> \<open>header; system class 1 "L" with the members "_items" (a primitive array, by reference
      to id 2) and "_size" (int32 3); the int32 array 2 = [1, 2, 3]; MessageEnd\<close>
  "items_stream =
     [CHR 0x00, CHR 0x01, CHR 0x00, CHR 0x00, CHR 0x00, CHR 0xFF, CHR 0xFF, CHR 0xFF, CHR 0xFF,
      CHR 0x01, CHR 0x00, CHR 0x00, CHR 0x00, CHR 0x00, CHR 0x00, CHR 0x00, CHR 0x00, CHR 0x04,
      CHR 0x01, CHR 0x00, CHR 0x00, CHR 0x00, CHR 0x01, CHR 0x4C, CHR 0x02, CHR 0x00, CHR 0x00,
      CHR 0x00, CHR 0x06, CHR 0x5F, CHR 0x69, CHR 0x74, CHR 0x65, CHR 0x6D, CHR 0x73, CHR 0x05,
      CHR 0x5F, CHR 0x73, CHR 0x69, CHR 0x7A, CHR 0x65, CHR 0x07, CHR 0x00, CHR 0x08, CHR 0x08,
      CHR 0x09, CHR 0x02, CHR 0x00, CHR 0x00, CHR 0x00, CHR 0x03, CHR 0x00, CHR 0x00, CHR 0x00,
      CHR 0x0F, CHR 0x02, CHR 0x00, CHR 0x00, CHR 0x00, CHR 0x03, CHR 0x00, CHR 0x00, CHR 0x00,
      CHR 0x08, CHR 0x01, CHR 0x00, CHR 0x00, CHR 0x00, CHR 0x02, CHR 0x00, CHR 0x00, CHR 0x00,
      CHR 0x03, CHR 0x00, CHR 0x00, CHR 0x00, CHR 0x0B]"

text \<open>States that the parser reaches on these streams.\<close>

definition two_roots_state :: state where
  \<comment> \<open>the state after seven rounds on \<open>two_roots_stream\<close>, before MessageEnd is read\<close>
  "two_roots_state =
     \<lparr>libraries = [], objects = [(2, JObj 0), (1, JObj 1)], references = [],
     objectStack = [],
     heap =
     [\<lparr>objectId = 2, name = Some ''A'', memberNames = Some [''x''],
     memberTypes = Some [0], additionalInfos = Some [AINum 2],
     libraryId = None, memberValues = [JNum 7], rank = None,
     lengths = None, lowerBounds = None, itemType = None\<rparr>,
     \<lparr>objectId = 1, name = Some ''B'', memberNames = Some [''y''],
     memberTypes = Some [0], additionalInfos = Some [AINum 2],
     libraryId = None, memberValues = [JNum 9], rank = None,
     lengths = None, lowerBounds = None, itemType = None\<rparr>],
     rdr =
     \<lparr>bytes = map of_char two_roots_stream,
     bit_pos = 392\<rparr>,
     header = Some (2, - 1, 1, 0)\<rparr>"

definition null256_state :: state where
  \<comment> \<open>the state after two rounds on \<open>null256_stream\<close>, before ObjectNull256 is read\<close>
  "null256_state =
     \<lparr>libraries = [], objects = [(1, JObj 0)], references = [],
     objectStack = [0],
     heap =
     [\<lparr>objectId = 1, name = Some ''A'', memberNames = Some [''x''],
     memberTypes = Some [1], additionalInfos = Some [AINull],
     libraryId = None, memberValues = [], rank = None, lengths = None,
     lowerBounds = None, itemType = None\<rparr>],
     rdr =
     \<lparr>bytes = map of_char null256_stream,
     bit_pos = 248\<rparr>,
     header = Some (1, - 1, 1, 0)\<rparr>"

definition null256_state_after :: state where
  \<comment> \<open>the state after the ObjectNull256 record of \<open>null256_stream\<close>\<close>
  "null256_state_after =
     \<lparr>libraries = [], objects = [(1, JObj 0)], references = [],
     objectStack = [0],
     heap =
     [\<lparr>objectId = 1, name = Some ''A'', memberNames = Some [''x''],
     memberTypes = Some [1], additionalInfos = Some [AINull],
     libraryId = None,
     memberValues = [JNull, JNull, JNull, JNull, JNull], rank = None,
     lengths = None, lowerBounds = None, itemType = None\<rparr>],
     rdr =
     \<lparr>bytes = map of_char null256_stream,
     bit_pos = 264\<rparr>,
     header = Some (1, - 1, 1, 0)\<rparr>"


definition node_state :: state where
  \<comment> \<open>the state after two rounds on \<open>node_stream\<close>, before ClassWithId is read\<close>
  "node_state =
     \<lparr>libraries = [], objects = [(1, JObj 0)], references = [],
     objectStack = [0],
     heap =
     [\<lparr>objectId = 1, name = Some ''N'', memberNames = Some [''next''],
     memberTypes = Some [2], additionalInfos = Some [AINull],
     libraryId = None, memberValues = [], rank = None, lengths = None,
     lowerBounds = None, itemType = None\<rparr>],
     rdr =
     \<lparr>bytes = map of_char node_stream,
     bit_pos = 272\<rparr>,
     header = Some (1, - 1, 1, 0)\<rparr>"

definition node_state_after :: state where
  \<comment> \<open>the state after the ClassWithId record of \<open>node_stream\<close>\<close>
  "node_state_after =
     \<lparr>libraries = [], objects = [(1, JObj 0), (2, JObj 1)], references = [],
     objectStack = [0, 1],
     heap =
     [\<lparr>objectId = 1, name = Some ''N'', memberNames = Some [''next''],
     memberTypes = Some [2], additionalInfos = Some [AINull],
     libraryId = None, memberValues = [JObj 1], rank = None,
     lengths = None, lowerBounds = None, itemType = None\<rparr>,
     \<lparr>objectId = 2, name = Some ''N'', memberNames = Some [''next''],
     memberTypes = Some [2], additionalInfos = Some [AINull],
     libraryId = None, memberValues = [], rank = None, lengths = None,
     lowerBounds = None, itemType = None\<rparr>],
     rdr =
     \<lparr>bytes = map of_char node_stream,
     bit_pos = 344\<rparr>,
     header = Some (1, - 1, 1, 0)\<rparr>"

text \<open>
  The state in which the parser is after \<open>n\<close> rounds of the loop on the input \<open>str\<close>, when
  it is still running then.
\<close>

definition state_after :: "nat \<Rightarrow> string \<Rightarrow> state option" where
  "state_after n str =
     (case bitReader str of
        Inl e \<Rightarrow> None
      | Inr r \<Rightarrow> (case run n (initial_state r) of Continue s \<Rightarrow> Some s | _ \<Rightarrow> None))"

text \<open>
  The round of the loop that starts in \<open>s\<close> reads a record tag: the stack is empty, or the
  next member of the stack tip is not a primitive. \<open>record_tag\<close> is the tag it reads and
  \<open>after_tag\<close> the state in which the body of the record starts.
\<close>

definition awaits_record :: "state \<Rightarrow> bool" where
  "awaits_record s =
     (case currentObject s of
        None \<Rightarrow> True
      | Some a \<Rightarrow>
          (case memberTypes (heap s ! a) of
             None \<Rightarrow> False
           | Some types \<Rightarrow>
               length (memberValues (heap s ! a)) < length types
               \<and> types ! length (memberValues (heap s ! a)) \<noteq> 0))"

definition record_tag :: "state \<Rightarrow> int" where
  "record_tag s = fst (read8 (rdr s))"

definition after_tag :: "state \<Rightarrow> state" where
  "after_tag s = s\<lparr>rdr := snd (read8 (rdr s))\<rparr>"

definition binaryArray_rank :: "state \<Rightarrow> int" where
  \<comment> \<open>the rank field of a BinaryArray record whose body starts in \<open>s\<close>\<close>
  "binaryArray_rank s = fst (read32 (snd (read8 (snd (read32 (rdr s))))))"

definition classWithId_ids :: "state \<Rightarrow> int \<times> int" where
  \<comment> \<open>the object id and the metadata id of a ClassWithId record whose body starts in \<open>s\<close>\<close>
  "classWithId_ids s = (fst (read32 (rdr s)), fst (read32 (snd (read32 (rdr s)))))"

text \<open>
  The root in the claim's words, the first entry inserted into the object table, and the
  first entry in JavaScript's enumeration order: the entry of the least integer key when
  there is one, the first inserted entry otherwise.
\<close>

definition first_inserted :: "(int \<times> jsval) list \<Rightarrow> jsval" where
  "first_inserted objs = (case objs of [] \<Rightarrow> JUndefined | p # _ \<Rightarrow> snd p)"

definition first_enumerated :: "(int \<times> jsval) list \<Rightarrow> jsval" where
  "first_enumerated objs =
     (let ks = filter is_array_index (map fst objs)
      in if ks = [] then first_inserted objs else the (map_of objs (Min (set ks))))"

definition slot :: "nat \<times> nat \<times> int \<Rightarrow> nat \<times> nat" where
  \<comment> \<open>the composite and the index that a fix-up writes\<close>
  "slot ref = (fst ref, fst (snd ref))"

definition within_bound :: "composite list \<Rightarrow> nat \<Rightarrow> bool" where
  \<comment> \<open>\<^verbatim>\<open>memberValues.length <= memberTypes.length\<close>, for a composite that has
      memberTypes\<close>
  "within_bound h a =
     (case memberTypes (h ! a) of
        None \<Rightarrow> True
      | Some types \<Rightarrow> length (memberValues (h ! a)) \<le> length types)"

definition overshoot :: "composite list \<Rightarrow> nat \<Rightarrow> nat" where
  \<comment> \<open>by how much \<^verbatim>\<open>memberValues.length\<close> exceeds \<^verbatim>\<open>memberTypes.length\<close>\<close>
  "overshoot h a =
     (case memberTypes (h ! a) of
        None \<Rightarrow> 0
      | Some types \<Rightarrow> length (memberValues (h ! a)) - length types)"

definition exhausted :: "reader \<Rightarrow> bool" where
  \<comment> \<open>the cursor is at or past the end of the input\<close>
  "exhausted r = (8 * int (length (bytes r)) \<le> bit_pos r)"

text \<open>
  \<open>registered toParent cls s s'\<close>: the round from \<open>s\<close> to \<open>s'\<close> allocated the composite
  \<open>cls\<close>, pushed it on the stack and entered it in the object table, appending it to the
  parent when \<open>toParent\<close> holds and there is a parent.
\<close>

definition registered :: "bool \<Rightarrow> composite \<Rightarrow> state \<Rightarrow> state \<Rightarrow> bool" where
  "registered toParent cls s s' =
     (heap s' = (case currentObject s of
                   Some a \<Rightarrow> if toParent then push_values a [JObj (length (heap s))] (heap s @ [cls])
                             else heap s @ [cls]
                 | None \<Rightarrow> heap s @ [cls])
      \<and> objectStack s' = objectStack s @ [length (heap s)]
      \<and> references s' = references s
      \<and> objects s' = AList.update (objectId cls) (JObj (length (heap s))) (objects s))"

text \<open>
  The invariant of the parser state: the stack holds distinct addresses of the store; the
  composites below the stack tip are within their bound; every queued fix-up names a slot
  that exists, and no two fix-ups name the same slot; the object table points into the
  store.
\<close>

definition wf_state :: "state \<Rightarrow> bool" where
  "wf_state s =
     (distinct (objectStack s)
      \<and> (\<forall>a\<in>set (objectStack s). a < length (heap s))
      \<and> (\<forall>a\<in>set (butlast (objectStack s)). within_bound (heap s) a)
      \<and> (\<forall>ref\<in>set (references s).
            fst ref < length (heap s)
            \<and> fst (snd ref) < length (memberValues (heap s ! fst ref)))
      \<and> distinct (map slot (references s))
      \<and> (\<forall>p\<in>set (objects s). \<forall>a. snd p = JObj a \<longrightarrow> a < length (heap s)))"

definition tip_open :: "state \<Rightarrow> bool" where
  \<comment> \<open>the stack tip, if there is one, has memberTypes and a free slot\<close>
  "tip_open s =
     (case currentObject s of
        None \<Rightarrow> True
      | Some a \<Rightarrow>
          (case memberTypes (heap s ! a) of
             None \<Rightarrow> False
           | Some types \<Rightarrow> length (memberValues (heap s ! a)) < length types))"


section \<open>The loop and its bounded runs\<close>

lemma run_Throw_loop: "run n s = Throw e \<Longrightarrow> loop s = Some (Inl e)"
proof (induction n arbitrary: s)
  case 0
  then show ?case by simp
next
  case (Suc n)
  then show ?case
    by (cases "step s") (auto simp: loop.simps[of s])
qed

lemma run_Finish_loop: "run n s = Finish h c \<Longrightarrow> loop s = Some (Inr (h, c))"
proof (induction n arbitrary: s)
  case 0
  then show ?case by simp
next
  case (Suc n)
  then show ?case
    by (cases "step s") (auto simp: loop.simps[of s])
qed

lemma run_Continue_loop: "run n s = Continue s' \<Longrightarrow> loop s = loop s'"
proof (induction n arbitrary: s)
  case 0
  then show ?case by simp
next
  case (Suc n)
  then show ?case
    by (cases "step s") (auto simp: loop.simps[of s])
qed

lemma deserialize_state_after:
  assumes "state_after n str = Some s"
  shows "deserialize depth str =
           (case loop s of
              None \<Rightarrow> None
            | Some (Inl e) \<Rightarrow> Some (Inl e)
            | Some (Inr hc) \<Rightarrow> Some (project_root depth hc))"
proof -
  from assms obtain r where r: "bitReader str = Inr r" "run n (initial_state r) = Continue s"
    by (auto simp: state_after_def split: sum.splits step_result.splits)
  show ?thesis
    by (simp add: deserialize_def r(1) run_Continue_loop[OF r(2)])
qed

lemma step_awaits_record: "awaits_record s \<Longrightarrow> step s = read_record s"
  by (auto simp: awaits_record_def step_def Let_def split: option.splits)

lemma read_record_tag:
  "read_record s =
     (if record_tag s = 0 then record_Header (after_tag s)
      else if record_tag s = 1 then record_ClassWithId (after_tag s)
      else if record_tag s = 4 \<or> record_tag s = 5
        then record_ClassWithMembersAndTypes (record_tag s = 4) (after_tag s)
      else if record_tag s = 6 then record_BinaryObjectString (after_tag s)
      else if record_tag s = 7 then record_BinaryArray (after_tag s)
      else if record_tag s = 9 then record_MemberReference (after_tag s)
      else if record_tag s = 10 then record_ObjectNull (after_tag s)
      else if record_tag s = 11 then record_MessageEnd (after_tag s)
      else if record_tag s = 12 then record_BinaryLibrary (after_tag s)
      else if record_tag s = 13 then record_ObjectNull256 (after_tag s)
      else if record_tag s = 15 then record_ArraySinglePrimitive (after_tag s)
      else Throw (UnableToDeserializeRecord (record_tag s)))"
  by (simp add: read_record_def record_tag_def after_tag_def split_beta Let_def)

lemma loop_Throw: "step s = Throw e \<Longrightarrow> loop s = Some (Inl e)"
  by (simp add: loop.simps[of s])

lemma loop_Finish: "step s = Finish h c \<Longrightarrow> loop s = Some (Inr (h, c))"
  by (simp add: loop.simps[of s])

section \<open>Arithmetic of the reader\<close>

lemma toInt32_id: "- 2147483648 \<le> x \<Longrightarrow> x < 2147483648 \<Longrightarrow> toInt32 x = x"
  by (simp add: toInt32_def)







lemma and_255: "(x::int) AND 255 = x mod 256"
  using take_bit_eq_mask[of 8 x] by (simp add: take_bit_eq_mod mask_eq_exp_minus_1)

lemma read8_range: "0 \<le> fst (read8 r) \<and> fst (read8 r) < 256"
  by (simp add: read8_def read_def Let_def js_and_def js_mask_def toInt32_id and_255)











section \<open>read32\<close>




section \<open>The sbyte primitive\<close>

text \<open>
  Claim C2 says that primitive type 10 (sbyte) reads seven magnitude bits and a sign bit
  and that the byte 0x80 decodes to -128. The code calls \<^verbatim>\<open>reader.read7()\<close>, which the
  reader does not have: decoding an sbyte raises a TypeError whatever the input, here on a
  stream whose class has one sbyte member holding the byte 0x80.
\<close>

theorem sbyte_member_raises:
  "deserializePrimitiveType r (AINum 10) = Inl (TypeError ''reader.read7 is not a function'')
   \<and> deserialize depth sbyte_stream = Some (Inl (TypeError ''reader.read7 is not a function''))"
proof -
  have r1: "bitReader sbyte_stream = Inr \<lparr>bytes = map of_char sbyte_stream, bit_pos = 0\<rparr>"
    by (simp add: bitReader_def sbyte_stream_def)
  have r2: "run 3 (initial_state \<lparr>bytes = map of_char sbyte_stream, bit_pos = 0\<rparr>)
            = Throw (TypeError ''reader.read7 is not a function'')"
    by code_simp
  show ?thesis
    by (simp add: deserialize_def r1 run_Throw_loop[OF r2] deserializePrimitiveType_def)
qed

section \<open>The length prefix of a string\<close>














section \<open>A BinaryArray record of rank 0\<close>

lemma record_BinaryArray_rank0:
  assumes "binaryArray_rank s = 0"
  shows "record_BinaryArray s = Throw (TypeError ''Reduce of empty array with no initial value'')"
  using assms
  by (simp add: record_BinaryArray_def binaryArray_rank_def split_beta Let_def reduce_sum_def)

text \<open>
  Claim C10: when the parser, after any number of rounds on a stream, reads a BinaryArray
  record (tag 0x07) whose rank field is 0, the round raises the TypeError of reducing the
  empty list of lengths, and so does deserialize: no array object is registered.
\<close>

theorem binary_array_rank_zero_raises:
  assumes "state_after n str = Some s" and "awaits_record s" and "record_tag s = 7"
    and "binaryArray_rank (after_tag s) = 0"
  shows "step s = Throw (TypeError ''Reduce of empty array with no initial value'')
       \<and> deserialize depth str
           = Some (Inl (TypeError ''Reduce of empty array with no initial value''))"
proof -
  have st: "step s = Throw (TypeError ''Reduce of empty array with no initial value'')"
    by (simp add: step_awaits_record[OF assms(2)] read_record_tag assms(3)
        record_BinaryArray_rank0[OF assms(4)])
  show ?thesis
    by (simp add: st deserialize_state_after[OF assms(1)] loop_Throw[OF st])
qed

theorem binary_array_rank_zero_raises_witness:
  "state_after 1 rank0_stream \<noteq> None
   \<and> awaits_record (the (state_after 1 rank0_stream))
   \<and> record_tag (the (state_after 1 rank0_stream)) = 7
   \<and> binaryArray_rank (after_tag (the (state_after 1 rank0_stream))) = 0
   \<and> deserialize 0 rank0_stream
       = Some (Inl (TypeError ''Reduce of empty array with no initial value''))"
proof -
  have h0: "state_after 1 rank0_stream \<noteq> None" by code_simp
  then have h1: "state_after 1 rank0_stream = Some (the (state_after 1 rank0_stream))" by simp
  have h2: "awaits_record (the (state_after 1 rank0_stream))" by code_simp
  have h3: "record_tag (the (state_after 1 rank0_stream)) = 7" by code_simp
  have h4: "binaryArray_rank (after_tag (the (state_after 1 rank0_stream))) = 0" by code_simp
  from binary_array_rank_zero_raises[OF h1 h2 h3 h4, of 0] h0 h2 h3 h4 show ?thesis by simp
qed

section \<open>MessageEnd: fix-ups and the root\<close>

lemma hd_sort_key_fst:
  "xs \<noteq> [] \<Longrightarrow>
     hd (sort_key fst xs) = (Min (fst ` set xs), the (map_of xs (Min (fst ` set xs))))"
proof (induction xs)
  case Nil
  then show ?case by simp
next
  case (Cons x xs)
  show ?case
  proof (cases "xs = []")
    case True
    then show ?thesis by (cases x) simp
  next
    case False
    let ?m = "Min (fst ` set xs)"
    have ih: "hd (sort_key fst xs) = (?m, the (map_of xs ?m))"
      using Cons.IH False by simp
    have ne: "sort_key fst xs \<noteq> []"
      using False length_sort[of fst xs] by fastforce
    have mn: "Min (fst ` set (x # xs)) = min (fst x) ?m"
      using False by (simp add: Min_insert)
    have hd_ins: "hd (insort_key fst x (sort_key fst xs))
                  = (if fst x \<le> fst (hd (sort_key fst xs)) then x else hd (sort_key fst xs))"
      using ne by (cases "sort_key fst xs") auto
    have srt: "sort_key fst (x # xs) = insort_key fst x (sort_key fst xs)"
      by (simp add: sort_key_def)
    show ?thesis
    proof (cases "fst x \<le> ?m")
      case True
      then have mn': "Min (fst ` set (x # xs)) = fst x"
        using mn by (simp add: min_def)
      have goal: "hd (sort_key fst (x # xs)) = (fst x, the (map_of (x # xs) (fst x)))"
        using hd_ins ih True by (cases x) (simp add: srt)
      show ?thesis unfolding mn' by (rule goal)
    next
      case False
      then have mn': "Min (fst ` set (x # xs)) = ?m"
        using mn by (simp add: min_def)
      have mo: "map_of (x # xs) ?m = map_of xs ?m"
        using False by (cases x) auto
      have goal: "hd (sort_key fst (x # xs)) = (?m, the (map_of (x # xs) ?m))"
        using hd_ins ih False by (simp add: srt mo del: map_of.simps)
      show ?thesis unfolding mn' by (rule goal)
    qed
  qed
qed

lemma map_of_filter_key:
  "P k \<Longrightarrow> map_of (filter (\<lambda>p. P (fst p)) xs) k = map_of xs k"
  by (induction xs) auto

lemma object_values_first:
  "(case object_values objs of [] \<Rightarrow> JUndefined | v # _ \<Rightarrow> v) = first_enumerated objs"
proof (cases "filter (\<lambda>p. is_array_index (fst p)) objs = []")
  case True
  then have a: "\<forall>p\<in>set objs. \<not> is_array_index (fst p)"
    by (simp add: filter_empty_conv)
  then have f: "filter (\<lambda>p. \<not> is_array_index (fst p)) objs = objs"
    by (simp add: filter_id_conv)
  have k: "filter is_array_index (map fst objs) = []"
    using a by (simp add: filter_empty_conv)
  have "object_values objs = map snd objs"
    by (simp add: object_values_def True f)
  moreover have "(case map snd objs of [] \<Rightarrow> JUndefined | v # _ \<Rightarrow> v) = first_inserted objs"
    by (cases objs) (simp_all add: first_inserted_def)
  ultimately show ?thesis
    by (simp add: first_enumerated_def k)
next
  case False
  let ?ys = "filter (\<lambda>p. is_array_index (fst p)) objs"
  let ?ks = "filter is_array_index (map fst objs)"
  have ks: "?ks = map fst ?ys" by (simp add: filter_map comp_def)
  have kne: "?ks \<noteq> []" unfolding ks using False by simp
  have st: "set ?ks = fst ` set ?ys" by (simp add: ks)
  have sne: "set ?ks \<noteq> {}" using kne unfolding set_empty .
  have "Min (set ?ks) \<in> set ?ks"
    by (rule Min_in[OF finite_set sne])
  then have idx: "is_array_index (Min (set ?ks))" by simp
  have hd: "hd (sort_key fst ?ys) = (Min (set ?ks), the (map_of ?ys (Min (set ?ks))))"
    using hd_sort_key_fst[OF False] st by simp
  have mo: "map_of ?ys (Min (set ?ks)) = map_of objs (Min (set ?ks))"
    by (rule map_of_filter_key[of is_array_index, OF idx])
  have ne: "sort_key fst ?ys \<noteq> []"
    using False length_sort[of fst ?ys] by fastforce
  then obtain z zs where z: "sort_key fst ?ys = z # zs" by (cases "sort_key fst ?ys") auto
  have "snd z = the (map_of objs (Min (set ?ks)))"
    using hd z mo by simp
  then show ?thesis
    using kne by (simp add: object_values_def z first_enumerated_def Let_def)
qed

lemma record_MessageEnd_eq:
  "record_MessageEnd s =
     Finish (foldl (run_reference (objects s)) (heap s) (references s)) (first_enumerated (objects s))"
  by (simp add: record_MessageEnd_def object_values_first Let_def)

lemma step_MessageEnd:
  assumes "awaits_record s" "record_tag s = 11"
  shows "step s = Finish (foldl (run_reference (objects s)) (heap s) (references s))
                         (first_enumerated (objects s))"
  by (simp add: step_awaits_record[OF assms(1)] read_record_tag assms(2) record_MessageEnd_eq
      after_tag_def)

text \<open>
  What deserialize returns when the parser, after any number of rounds on a stream, reads
  the MessageEnd record: the queued fix-ups run from the head of their list, and the first
  entry of the object table in JavaScript's enumeration order is projected.
\<close>

lemma deserialize_at_MessageEnd:
  assumes "state_after n str = Some s" and "awaits_record s" and "record_tag s = 11"
  shows "deserialize depth str =
           Some (project_root depth
                  (foldl (run_reference (objects s)) (heap s) (references s),
                   first_enumerated (objects s)))"
  by (simp add: deserialize_state_after[OF assms(1)] loop_Finish[OF step_MessageEnd[OF assms(2,3)]])

lemma two_roots_reach: "state_after 7 two_roots_stream = Some two_roots_state"
  by code_simp

lemma two_roots_at_end: "awaits_record two_roots_state" "record_tag two_roots_state = 11"
  by code_simp+

text \<open>
  Claim C1 says that at MessageEnd deserialize applies the queued fix-ups in the order of
  their insertion and returns the projection of the root, the first entry that was
  inserted into the object table. The code takes the root as
  \<^verbatim>\<open>Object.values(state.objects)[0]\<close>, and JavaScript enumerates the integer keys of
  the table in ascending order, not in the order of their insertion. On
  \<open>two_roots_stream\<close> the header names the root id 2 and the first record is the class
  with id 2, whose projection is \<open>{x: 7}\<close>; deserialize returns \<open>{y: 9}\<close>, the
  projection of the class with id 1, inserted second.
\<close>

theorem root_not_first_inserted:
  "state_after 7 two_roots_stream = Some two_roots_state
   \<and> record_tag two_roots_state = 11
   \<and> header two_roots_state = Some (2, - 1, 1, 0)
   \<and> map fst (objects two_roots_state) = [2, 1]
   \<and> first_inserted (objects two_roots_state) = JObj 0
   \<and> project_root 2
        (foldl (run_reference (objects two_roots_state)) (heap two_roots_state)
           (references two_roots_state),
         first_inserted (objects two_roots_state))
      = Inr (PMap [(''x'', PSimple (JNum 7))])
   \<and> deserialize 2 two_roots_stream = Some (Inr (PMap [(''y'', PSimple (JNum 9))]))"
proof -
  have st: "step two_roots_state
            = Finish (foldl (run_reference (objects two_roots_state)) (heap two_roots_state)
                        (references two_roots_state))
                (first_enumerated (objects two_roots_state))"
    by (rule step_MessageEnd[OF two_roots_at_end])
  have f: "first_enumerated (objects two_roots_state) = JObj 1"
    by (simp add: two_roots_state_def first_enumerated_def is_array_index_def)
  have p: "project_root 2
             (foldl (run_reference (objects two_roots_state)) (heap two_roots_state)
                (references two_roots_state), JObj 1)
           = Inr (PMap [(''y'', PSimple (JNum 9))])"
    by code_simp
  have d: "deserialize 2 two_roots_stream = Some (Inr (PMap [(''y'', PSimple (JNum 9))]))"
    by (simp add: deserialize_state_after[OF two_roots_reach] loop_Finish[OF st] f p
        del: One_nat_def)
  have b: "first_inserted (objects two_roots_state) = JObj 0"
    by (simp add: two_roots_state_def first_inserted_def)
  have c: "project_root 2
        (foldl (run_reference (objects two_roots_state)) (heap two_roots_state)
           (references two_roots_state), JObj 0)
      = Inr (PMap [(''x'', PSimple (JNum 7))])"
    by code_simp
  have hd: "header two_roots_state = Some (2, - 1, 1, 0)"
      "map fst (objects two_roots_state) = [2, 1]"
    by (simp_all add: two_roots_state_def)
  show ?thesis using two_roots_reach two_roots_at_end(2) d b c hd by simp
qed

section \<open>What one round of the loop changes\<close>

lemma currentObject_rdr [simp]: "currentObject (s\<lparr>rdr := r\<rparr>) = currentObject s"
  by (simp add: currentObject_def)

lemma record_Header_effect:
  "record_Header s = Continue s' \<Longrightarrow>
     heap s' = heap s \<and> objectStack s' = objectStack s \<and> references s' = references s
     \<and> objects s' = objects s"
  by (auto simp: record_Header_def split_beta Let_def)

lemma record_BinaryLibrary_effect:
  "record_BinaryLibrary s = Continue s' \<Longrightarrow>
     heap s' = heap s \<and> objectStack s' = objectStack s \<and> references s' = references s
     \<and> objects s' = objects s"
  by (auto simp: record_BinaryLibrary_def split_beta Let_def)

lemma record_ArraySinglePrimitive_effect:
  "record_ArraySinglePrimitive s = Continue s' \<Longrightarrow>
     heap s' = heap s \<and> objectStack s' = objectStack s \<and> references s' = references s
     \<and> (\<exists>k v. objects s' = AList.update k (JArr v) (objects s))"
  by (fastforce simp: record_ArraySinglePrimitive_def split_beta Let_def split: sum.splits)

lemma record_BinaryObjectString_effect:
  "record_BinaryObjectString s = Continue s' \<Longrightarrow>
     (\<exists>a v k. currentObject s = Some a \<and> heap s' = push_values a [JStr v] (heap s)
        \<and> objects s' = AList.update k (JStr v) (objects s))
     \<and> objectStack s' = objectStack s \<and> references s' = references s"
  by (fastforce simp: record_BinaryObjectString_def split_beta Let_def split: option.splits)

lemma record_ObjectNull_effect:
  "record_ObjectNull s = Continue s' \<Longrightarrow>
     (\<exists>a. currentObject s = Some a \<and> heap s' = push_values a [JNull] (heap s))
     \<and> objects s' = objects s
     \<and> objectStack s' = objectStack s \<and> references s' = references s"
  by (auto simp: record_ObjectNull_def split: option.splits)

lemma record_ObjectNull256_effect:
  "record_ObjectNull256 s = Continue s' \<Longrightarrow>
     (\<exists>a. currentObject s = Some a
        \<and> heap s' = push_values a (replicate (nat (fst (read8 (rdr s)))) JNull) (heap s))
     \<and> objects s' = objects s
     \<and> objectStack s' = objectStack s \<and> references s' = references s"
  by (auto simp: record_ObjectNull256_def split_beta Let_def split: option.splits)

lemma record_MemberReference_effect:
  "record_MemberReference s = Continue s' \<Longrightarrow>
     (\<exists>a ref. currentObject s = Some a \<and> heap s' = push_values a [JRef ref] (heap s)
        \<and> references s' = references s @ [(a, length (memberValues (heap s ! a)), ref)])
     \<and> objects s' = objects s \<and> objectStack s' = objectStack s"
  by (auto simp: record_MemberReference_def split_beta Let_def split: option.splits)

lemma register_composite_registered:
  "registered toParent cls s (register_composite toParent cls (s\<lparr>rdr := r\<rparr>))"
  by (simp add: registered_def register_composite_def Let_def split: option.splits)

lemma registered_intro:
  "s' = register_composite b cls (s\<lparr>rdr := r\<rparr>) \<Longrightarrow> memberValues cls = [] \<Longrightarrow>
     \<exists>cls. memberValues cls = [] \<and> registered b cls s s'"
  using register_composite_registered[of b cls s r] by blast

lemma record_ClassWithId_effect:
  "record_ClassWithId s = Continue s' \<Longrightarrow>
     (\<exists>cls. memberValues cls = [] \<and> registered True cls s s')"
  unfolding record_ClassWithId_def split_beta Let_def
  by (auto intro!: registered_intro)

lemma record_ClassWithMembersAndTypes_effect:
  "record_ClassWithMembersAndTypes b s = Continue s' \<Longrightarrow>
     (\<exists>cls. memberValues cls = [] \<and> registered True cls s s')"
  unfolding record_ClassWithMembersAndTypes_def split_beta Let_def
  by (auto intro!: registered_intro
      simp: deserializeClassWithMembersAndTypes_def split_beta Let_def)

lemma record_BinaryArray_effect:
  "record_BinaryArray s = Continue s' \<Longrightarrow>
     (\<exists>cls. memberValues cls = [] \<and> registered False cls s s')"
  unfolding record_BinaryArray_def split_beta Let_def
  by (auto split: sum.splits intro!: registered_intro)

section \<open>The invariant of the parser state\<close>

lemma currentObject_Some: "currentObject s = Some a \<longleftrightarrow> (\<exists>bs. objectStack s = bs @ [a])"
  by (auto simp: currentObject_def) (metis append_butlast_last_id)

lemma currentObject_None: "currentObject s = None \<longleftrightarrow> objectStack s = []"
  by (simp add: currentObject_def)

lemma length_push_values [simp]: "length (push_values a vs h) = length h"
  by (simp add: push_values_def)

lemma push_values_other: "b \<noteq> a \<Longrightarrow> push_values a vs h ! b = h ! b"
  by (simp add: push_values_def)

lemma push_values_same:
  "a < length h \<Longrightarrow> push_values a vs h ! a = (h ! a)\<lparr>memberValues := memberValues (h ! a) @ vs\<rparr>"
  by (simp add: push_values_def)

lemma push_values_length_mono:
  "length (memberValues (h ! b)) \<le> length (memberValues (push_values a vs h ! b))"
  by (cases "b = a"; cases "a < length h") (simp_all add: push_values_def list_update_beyond)

lemma within_bound_push_other: "b \<noteq> a \<Longrightarrow> within_bound (push_values a vs h) b = within_bound h b"
  by (simp add: within_bound_def push_values_other cong: option.case_cong)

lemma set_update_cases: "p \<in> set (AList.update k v al) \<Longrightarrow> p = (k, v) \<or> p \<in> set al"
  by (induction al) (auto split: if_splits)

lemma wf_pop: "wf_state s \<Longrightarrow> wf_state (s\<lparr>objectStack := butlast (objectStack s)\<rparr>)"
  by (auto simp: wf_state_def distinct_butlast dest: in_set_butlastD)

lemma wf_same:
  assumes "wf_state s" "heap s' = heap s" "objectStack s' = objectStack s"
    "references s' = references s"
    "objects s' = objects s \<or> (\<exists>k v. (\<forall>a. v \<noteq> JObj a) \<and> objects s' = AList.update k v (objects s))"
  shows "wf_state s'"
  using assms by (auto simp: wf_state_def dest!: set_update_cases)

lemma wf_push:
  assumes "wf_state s" "currentObject s = Some a" "heap s' = push_values a vs (heap s)"
    "objectStack s' = objectStack s" "references s' = references s"
    "objects s' = objects s \<or> (\<exists>k v. (\<forall>a. v \<noteq> JObj a) \<and> objects s' = AList.update k v (objects s))"
  shows "wf_state s'"
proof -
  from assms(2) obtain bs where bs: "objectStack s = bs @ [a]"
    by (auto simp: currentObject_Some)
  have na: "a \<notin> set bs" using assms(1) bs by (simp add: wf_state_def)
  have nb: "\<forall>b\<in>set bs. within_bound (heap s') b"
  proof
    fix b assume b: "b \<in> set bs"
    then have "b \<noteq> a" using na by auto
    moreover have "within_bound (heap s) b" using assms(1) bs b by (simp add: wf_state_def)
    ultimately show "within_bound (heap s') b"
      by (simp add: assms(3) within_bound_push_other)
  qed
  have refs: "\<forall>ref\<in>set (references s'). fst ref < length (heap s')
            \<and> fst (snd ref) < length (memberValues (heap s' ! fst ref))"
  proof
    fix ref assume "ref \<in> set (references s')"
    then have r: "fst ref < length (heap s)"
        "fst (snd ref) < length (memberValues (heap s ! fst ref))"
      using assms(1,5) by (auto simp: wf_state_def)
    show "fst ref < length (heap s')
            \<and> fst (snd ref) < length (memberValues (heap s' ! fst ref))"
      using r push_values_length_mono[of "heap s" "fst ref" a vs]
      by (simp add: assms(3))
  qed
  have objs: "\<forall>p\<in>set (objects s'). \<forall>a. snd p = JObj a \<longrightarrow> a < length (heap s')"
    using assms(1,6) by (auto simp: wf_state_def assms(3) dest!: set_update_cases)
  show ?thesis
    using assms(1) nb refs objs
    by (simp add: wf_state_def assms(4,5) bs) (simp add: assms(3))
qed

lemma wf_ref:
  assumes "wf_state s" "currentObject s = Some a" "heap s' = push_values a [v] (heap s)"
    "objectStack s' = objectStack s"
    "references s' = references s @ [(a, length (memberValues (heap s ! a)), ref)]"
    "objects s' = objects s"
  shows "wf_state s'"
proof -
  let ?s1 = "s'\<lparr>references := references s\<rparr>"
  have w1: "wf_state ?s1"
    by (rule wf_push[OF assms(1,2), of _ "[v]"]) (simp_all add: assms)
  from assms(2) obtain bs where bs: "objectStack s = bs @ [a]"
    by (auto simp: currentObject_Some)
  have al: "a < length (heap s)" using assms(1) bs by (simp add: wf_state_def)
  have new: "length (memberValues (heap s ! a)) < length (memberValues (heap s' ! a))"
    using al by (simp add: assms(3) push_values_same)
  have fresh: "(a, length (memberValues (heap s ! a))) \<notin> slot ` set (references s)"
  proof
    assume "(a, length (memberValues (heap s ! a))) \<in> slot ` set (references s)"
    then obtain r where r: "r \<in> set (references s)" "fst r = a"
        "fst (snd r) = length (memberValues (heap s ! a))"
      by (auto simp: slot_def)
    then show False using assms(1) by (auto simp: wf_state_def)
  qed
  have hl: "length (heap s') = length (heap s)" by (simp add: assms(3))
  show ?thesis
    using w1 al new fresh hl
    by (auto simp: wf_state_def assms(5) slot_def)
qed

lemma wf_register:
  assumes "wf_state s" "tip_open s" "memberValues cls = []" "registered b cls s s'"
  shows "wf_state s'"
proof -
  let ?n = "length (heap s)"
  let ?h1 = "heap s @ [cls]"
  have st': "objectStack s' = objectStack s @ [?n]"
    and rf': "references s' = references s"
    and ob': "objects s' = AList.update (objectId cls) (JObj ?n) (objects s)"
    using assms(4) by (simp_all add: registered_def)
  have old: "\<And>x. x < ?n \<Longrightarrow> ?h1 ! x = heap s ! x" by (simp add: nth_append)
  have len': "length (heap s') = Suc ?n"
    using assms(4) by (auto simp: registered_def split: option.splits)
  have stk: "\<forall>a\<in>set (objectStack s). a < ?n" using assms(1) by (simp add: wf_state_def)
  have keep: "\<And>x. x < ?n \<Longrightarrow> currentObject s \<noteq> Some x \<Longrightarrow> heap s' ! x = heap s ! x"
    using assms(4) old by (auto simp: registered_def push_values_other split: option.splits)
  have grow: "\<And>x. x < ?n \<Longrightarrow>
      length (memberValues (heap s ! x)) \<le> length (memberValues (heap s' ! x))"
  proof -
    fix x assume x: "x < ?n"
    have "length (memberValues (?h1 ! x)) \<le> length (memberValues (heap s' ! x))"
      using assms(4) push_values_length_mono[of ?h1 x]
      by (auto simp: registered_def split: option.splits)
    then show "length (memberValues (heap s ! x)) \<le> length (memberValues (heap s' ! x))"
      using old[OF x] by simp
  qed
  have d: "distinct (objectStack s')"
    using assms(1) stk by (auto simp: wf_state_def st')
  have in_heap: "\<forall>a\<in>set (objectStack s'). a < length (heap s')"
    using stk by (auto simp: st' len')
  have below: "\<forall>a\<in>set (butlast (objectStack s')). within_bound (heap s') a"
  proof
    fix a assume "a \<in> set (butlast (objectStack s'))"
    then have a: "a \<in> set (objectStack s)" by (simp add: st' butlast_append)
    then have al: "a < ?n" using stk by simp
    show "within_bound (heap s') a"
    proof (cases "currentObject s = Some a")
      case False
      have "a \<in> set (butlast (objectStack s))"
      proof (cases "objectStack s" rule: rev_cases)
        case Nil
        then show ?thesis using a by simp
      next
        case (snoc xs x)
        then show ?thesis using a False by (auto simp: currentObject_def)
      qed
      then have "within_bound (heap s) a" using assms(1) by (simp add: wf_state_def)
      then show ?thesis
        using keep[OF al False] by (simp add: within_bound_def cong: option.case_cong)
    next
      case True
      then obtain ts where ts: "memberTypes (heap s ! a) = Some ts"
          "length (memberValues (heap s ! a)) < length ts"
        using assms(2) by (auto simp: tip_open_def split: option.splits)
      have "heap s' ! a = (if b then (heap s ! a)\<lparr>memberValues := memberValues (heap s ! a) @ [JObj ?n]\<rparr>
                           else heap s ! a)"
        using assms(4) True al old[OF al]
        by (simp add: registered_def push_values_same)
      then show ?thesis
        using ts by (simp add: within_bound_def cong: option.case_cong)
    qed
  qed
  have refs: "\<forall>ref\<in>set (references s'). fst ref < length (heap s')
            \<and> fst (snd ref) < length (memberValues (heap s' ! fst ref))"
  proof
    fix ref assume "ref \<in> set (references s')"
    then have r: "fst ref < ?n" "fst (snd ref) < length (memberValues (heap s ! fst ref))"
      using assms(1) by (auto simp: wf_state_def rf')
    show "fst ref < length (heap s')
            \<and> fst (snd ref) < length (memberValues (heap s' ! fst ref))"
      using r grow[OF r(1)] by (simp add: len')
  qed
  have objs: "\<forall>p\<in>set (objects s'). \<forall>a. snd p = JObj a \<longrightarrow> a < length (heap s')"
    using assms(1) by (auto simp: wf_state_def ob' len' dest!: set_update_cases)
  show ?thesis
    using d in_heap below refs objs assms(1)
    by (simp add: wf_state_def rf')
qed

lemma after_tag_fields [simp]:
  "heap (after_tag s) = heap s" "objectStack (after_tag s) = objectStack s"
  "references (after_tag s) = references s" "objects (after_tag s) = objects s"
  "currentObject (after_tag s) = currentObject s"
  by (simp_all add: after_tag_def)

lemma registered_after_tag [simp]: "registered b cls (after_tag s) s' = registered b cls s s'"
  by (cases "currentObject s") (simp_all add: registered_def)

lemma wf_after_tag [simp]: "wf_state (after_tag s) = wf_state s"
  by (simp add: wf_state_def)

lemma tip_open_after_tag [simp]: "tip_open (after_tag s) = tip_open s"
  by (simp add: tip_open_def cong: option.case_cong)

lemma awaits_record_tip_open: "awaits_record s \<Longrightarrow> tip_open s"
  by (auto simp: awaits_record_def tip_open_def split: option.splits)

lemma read_record_wf:
  assumes "wf_state s" "tip_open s" "read_record s = Continue s'"
  shows "wf_state s'"
proof -
  let ?t = "after_tag s"
  have w: "wf_state ?t" "tip_open ?t" using assms(1,2) by simp_all
  consider (hdr) "record_Header ?t = Continue s'"
    | (cid) "record_ClassWithId ?t = Continue s'"
    | (cls) b where "record_ClassWithMembersAndTypes b ?t = Continue s'"
    | (str) "record_BinaryObjectString ?t = Continue s'"
    | (arr) "record_BinaryArray ?t = Continue s'"
    | (ref) "record_MemberReference ?t = Continue s'"
    | (nul) "record_ObjectNull ?t = Continue s'"
    | (lib) "record_BinaryLibrary ?t = Continue s'"
    | (n256) "record_ObjectNull256 ?t = Continue s'"
    | (prim) "record_ArraySinglePrimitive ?t = Continue s'"
    using assms(3) unfolding read_record_tag
    by (auto simp: record_MessageEnd_def Let_def split: if_splits)
  then show ?thesis
  proof cases
    case hdr
    from record_Header_effect[OF this] show ?thesis
      by (intro wf_same[OF w(1)]) simp_all
  next
    case cid
    from record_ClassWithId_effect[OF this] show ?thesis
      using wf_register[OF assms(1,2)] by auto
  next
    case (cls b)
    from record_ClassWithMembersAndTypes_effect[OF this] show ?thesis
      using wf_register[OF assms(1,2)] by auto
  next
    case str
    from record_BinaryObjectString_effect[OF this] show ?thesis
      by (elim conjE exE, intro wf_push[OF w(1)]) auto
  next
    case arr
    from record_BinaryArray_effect[OF this] show ?thesis
      using wf_register[OF assms(1,2)] by auto
  next
    case ref
    from record_MemberReference_effect[OF this] show ?thesis
      by (elim conjE exE, intro wf_ref[OF w(1)]) auto
  next
    case nul
    from record_ObjectNull_effect[OF this] show ?thesis
      by (elim conjE exE, intro wf_push[OF w(1)]) auto
  next
    case lib
    from record_BinaryLibrary_effect[OF this] show ?thesis
      by (intro wf_same[OF w(1)]) simp_all
  next
    case n256
    from record_ObjectNull256_effect[OF this] show ?thesis
      by (elim conjE exE, intro wf_push[OF w(1)]) auto
  next
    case prim
    from record_ArraySinglePrimitive_effect[OF this] show ?thesis
      by (elim conjE exE, intro wf_same[OF w(1)]) auto
  qed
qed

lemma set_value_push:
  "set_value a (length (memberValues (h ! a))) v h = push_values a [v] h"
  by (simp add: set_value_def push_values_def array_set_def)

lemma primitive_member_effect:
  assumes "primitive_member a (length (memberValues (heap s ! a))) s = Continue s'"
  shows "\<exists>v. heap s' = push_values a [v] (heap s) \<and> objectStack s' = objectStack s
           \<and> references s' = references s \<and> objects s' = objects s"
  using assms
  by (auto simp: primitive_member_def set_value_push split: option.splits sum.splits)

lemma step_cases:
  assumes "step s = Continue s'"
  shows "(\<exists>a ts. currentObject s = Some a \<and> memberTypes (heap s ! a) = Some ts
            \<and> length ts \<le> length (memberValues (heap s ! a))
            \<and> s' = s\<lparr>objectStack := butlast (objectStack s)\<rparr>)
       \<or> (tip_open s \<and> (\<exists>a v. currentObject s = Some a \<and> heap s' = push_values a [v] (heap s)
            \<and> objectStack s' = objectStack s
            \<and> references s' = references s \<and> objects s' = objects s))
       \<or> (awaits_record s \<and> read_record s = Continue s')"
proof (cases "currentObject s")
  case None
  then show ?thesis
    using assms by (simp add: step_def awaits_record_def)
next
  case (Some a)
  show ?thesis
  proof (cases "memberTypes (heap s ! a)")
    case None
    then show ?thesis using assms Some by (simp add: step_def)
  next
    case (Some ts)
    note ts = this
    show ?thesis
    proof (cases "length (memberValues (heap s ! a)) < length ts")
      case False
      then show ?thesis
        using assms \<open>currentObject s = Some a\<close> ts by (auto simp: step_def Let_def)
    next
      case True
      note opn = this
      show ?thesis
      proof (cases "ts ! length (memberValues (heap s ! a)) = 0")
        case True
        then have "primitive_member a (length (memberValues (heap s ! a))) s = Continue s'"
          using assms \<open>currentObject s = Some a\<close> ts opn by (simp add: step_def Let_def)
        from primitive_member_effect[OF this] show ?thesis
          using \<open>currentObject s = Some a\<close> ts opn by (auto simp: tip_open_def)
      next
        case False
        then show ?thesis
          using assms \<open>currentObject s = Some a\<close> ts opn
          by (simp add: step_def Let_def awaits_record_def)
      qed
    qed
  qed
qed

lemma step_wf:
  assumes "wf_state s" "step s = Continue s'"
  shows "wf_state s'"
  using step_cases[OF assms(2)]
proof (elim disjE conjE exE)
  fix a ts assume "s' = s\<lparr>objectStack := butlast (objectStack s)\<rparr>"
  then show ?thesis using wf_pop[OF assms(1)] by simp
next
  fix a v assume "currentObject s = Some a" "heap s' = push_values a [v] (heap s)"
    "objectStack s' = objectStack s" "references s' = references s" "objects s' = objects s"
  then show ?thesis by (intro wf_push[OF assms(1)]) auto
next
  assume "awaits_record s" "read_record s = Continue s'"
  then show ?thesis
    using read_record_wf[OF assms(1) awaits_record_tip_open] by simp
qed

lemma run_wf: "wf_state s \<Longrightarrow> run n s = Continue s' \<Longrightarrow> wf_state s'"
proof (induction n arbitrary: s)
  case 0
  then show ?case by simp
next
  case (Suc n)
  then show ?case
    by (cases "step s") (auto dest: step_wf)
qed

lemma wf_initial: "wf_state (initial_state r)"
  by (simp add: wf_state_def initial_state_def)

lemma state_after_wf: "state_after n str = Some s \<Longrightarrow> wf_state s"
  using run_wf[OF wf_initial]
  by (auto simp: state_after_def split: sum.splits step_result.splits)

section \<open>The bound on the member values of open composites\<close>

lemma read_record_Continue:
  assumes "read_record s = Continue s'"
  obtains
    (hdr) "record_tag s \<noteq> 13" "record_Header (after_tag s) = Continue s'"
  | (cid) "record_tag s = 1" "record_ClassWithId (after_tag s) = Continue s'"
  | (cls) b where "record_tag s \<noteq> 13"
      "record_ClassWithMembersAndTypes b (after_tag s) = Continue s'"
  | (str) "record_tag s \<noteq> 13" "record_BinaryObjectString (after_tag s) = Continue s'"
  | (arr) "record_tag s \<noteq> 13" "record_BinaryArray (after_tag s) = Continue s'"
  | (ref) "record_tag s \<noteq> 13" "record_MemberReference (after_tag s) = Continue s'"
  | (nul) "record_tag s \<noteq> 13" "record_ObjectNull (after_tag s) = Continue s'"
  | (lib) "record_tag s \<noteq> 13" "record_BinaryLibrary (after_tag s) = Continue s'"
  | (n256) "record_tag s = 13" "record_ObjectNull256 (after_tag s) = Continue s'"
  | (prim) "record_tag s \<noteq> 13" "record_ArraySinglePrimitive (after_tag s) = Continue s'"
  using assms unfolding read_record_tag
  by (auto simp: record_MessageEnd_def Let_def split: if_splits)

lemma currentObject_cong:
  "objectStack s' = objectStack s \<Longrightarrow> currentObject s' = currentObject s"
  by (simp add: currentObject_def)

lemma tip_same:
  assumes "tip_open s" "heap s' = heap s" "objectStack s' = objectStack s"
    "currentObject s' = Some a"
  shows "within_bound (heap s') a \<and> overshoot (heap s') a = 0"
proof -
  have "currentObject s = Some a" using assms(4) currentObject_cong[OF assms(3)] by simp
  then show ?thesis
    using assms(1,2) by (auto simp: tip_open_def within_bound_def overshoot_def split: option.splits)
qed

lemma tip_pushed:
  assumes "wf_state s" "tip_open s" "currentObject s = Some a'"
    "heap s' = push_values a' vs (heap s)" "objectStack s' = objectStack s"
    "currentObject s' = Some a"
  shows "overshoot (heap s') a \<le> length vs - 1
         \<and> (length vs \<le> 1 \<longrightarrow> within_bound (heap s') a)"
proof -
  have e: "a = a'" using assms(3,6) currentObject_cong[OF assms(5)] by simp
  have "a' \<in> set (objectStack s)"
    using assms(3) by (auto simp: currentObject_def split: if_splits)
  then have al: "a' < length (heap s)" using assms(1) by (simp add: wf_state_def)
  obtain ts where ts: "memberTypes (heap s ! a') = Some ts"
      "length (memberValues (heap s ! a')) < length ts"
    using assms(2,3) by (auto simp: tip_open_def split: option.splits)
  show ?thesis
    using ts by (auto simp: e assms(4) push_values_same[OF al] overshoot_def within_bound_def)
qed

lemma tip_registered:
  assumes "wf_state s" "memberValues cls = []" "registered b cls s s'"
    "currentObject s' = Some a"
  shows "within_bound (heap s') a \<and> overshoot (heap s') a = 0"
proof -
  let ?n = "length (heap s)"
  have a: "a = ?n" using assms(3,4) by (simp add: registered_def currentObject_def)
  have stk: "\<forall>x\<in>set (objectStack s). x < ?n" using assms(1) by (simp add: wf_state_def)
  have "heap s' ! ?n = cls"
  proof (cases "currentObject s")
    case None
    then show ?thesis using assms(3) by (simp add: registered_def)
  next
    case (Some t)
    then have "t \<in> set (objectStack s)" by (auto simp: currentObject_def split: if_splits)
    then have "t \<noteq> ?n" using stk by auto
    then show ?thesis
      using assms(3) Some by (simp add: registered_def push_values_other)
  qed
  then show ?thesis
    using assms(2) by (simp add: a within_bound_def overshoot_def split: option.splits)
qed

lemma read_record_tip:
  assumes "wf_state s" "awaits_record s" "read_record s = Continue s'"
    "currentObject s' = Some a"
  shows "overshoot (heap s') a \<le> 254 \<and> (record_tag s \<noteq> 13 \<longrightarrow> within_bound (heap s') a)"
proof -
  note op = awaits_record_tip_open[OF assms(2)]
  from assms(3) show ?thesis
  proof (cases rule: read_record_Continue)
    case hdr
    from record_Header_effect[OF hdr(2)] show ?thesis
      using tip_same[OF op _ _ assms(4)] by simp
  next
    case cid
    from record_ClassWithId_effect[OF cid(2)] show ?thesis
      using tip_registered[OF assms(1) _ _ assms(4)] by auto
  next
    case (cls b)
    from record_ClassWithMembersAndTypes_effect[OF cls(2)] show ?thesis
      using tip_registered[OF assms(1) _ _ assms(4)] by auto
  next
    case str
    from record_BinaryObjectString_effect[OF str(2)] show ?thesis
      using tip_pushed[OF assms(1) op _ _ _ assms(4)] by fastforce
  next
    case arr
    from record_BinaryArray_effect[OF arr(2)] show ?thesis
      using tip_registered[OF assms(1) _ _ assms(4)] by auto
  next
    case ref
    from record_MemberReference_effect[OF ref(2)] show ?thesis
      using tip_pushed[OF assms(1) op _ _ _ assms(4)] by fastforce
  next
    case nul
    from record_ObjectNull_effect[OF nul(2)] show ?thesis
      using tip_pushed[OF assms(1) op _ _ _ assms(4)] by fastforce
  next
    case lib
    from record_BinaryLibrary_effect[OF lib(2)] show ?thesis
      using tip_same[OF op _ _ assms(4)] by simp
  next
    case n256
    let ?vs = "replicate (nat (fst (read8 (rdr (after_tag s))))) JNull"
    from record_ObjectNull256_effect[OF n256(2)]
    obtain t where t: "currentObject s = Some t" "heap s' = push_values t ?vs (heap s)"
        "objectStack s' = objectStack s"
      by auto
    have "length ?vs \<le> 255"
      using read8_range[of "rdr (after_tag s)"] by (simp add: nat_le_iff)
    then show ?thesis
      using tip_pushed[OF assms(1) op t assms(4)] n256(1) by (simp del: length_replicate) linarith
  next
    case prim
    from record_ArraySinglePrimitive_effect[OF prim(2)] show ?thesis
      using tip_same[OF op _ _ assms(4)] by auto
  qed
qed

lemma step_tip:
  assumes "wf_state s" "step s = Continue s'" "currentObject s' = Some a"
  shows "overshoot (heap s') a \<le> 254
       \<and> (\<not> (awaits_record s \<and> record_tag s = 13) \<longrightarrow> within_bound (heap s') a)"
  using step_cases[OF assms(2)]
proof (elim disjE conjE exE)
  fix t ts assume p: "s' = s\<lparr>objectStack := butlast (objectStack s)\<rparr>"
  then have "a \<in> set (butlast (objectStack s))"
    using assms(3) by (auto simp: currentObject_def split: if_splits)
  then have "within_bound (heap s) a" using assms(1) by (simp add: wf_state_def)
  then show ?thesis
    by (auto simp: p within_bound_def overshoot_def split: option.splits)
next
  fix t v assume "tip_open s" "currentObject s = Some t" "heap s' = push_values t [v] (heap s)"
    "objectStack s' = objectStack s"
  from tip_pushed[OF assms(1) this assms(3)] show ?thesis by simp
next
  assume r: "awaits_record s" "read_record s = Continue s'"
  from read_record_tip[OF assms(1) r assms(3)] r(1) show ?thesis by auto
qed

lemma step_pop:
  assumes "currentObject s = Some a" "memberTypes (heap s ! a) = Some ts"
    "length ts \<le> length (memberValues (heap s ! a))"
  shows "step s = Continue (s\<lparr>objectStack := butlast (objectStack s)\<rparr>)"
  using assms by (simp add: step_def Let_def)

text \<open>
  Claim C3, as the code has it. After every round of the loop on any stream: every composite
  on the open-object stack below the tip has \<^verbatim>\<open>memberValues.length <= memberTypes.length\<close>;
  the tip has it too unless the round processed an ObjectNull256 record, which appends its
  whole count and can leave the tip up to 254 entries over; and a tip whose memberValues
  have reached or passed the length of its memberTypes is popped by the next round.
\<close>

theorem stack_bounds_after_round:
  assumes "state_after n str = Some s" and "step s = Continue s'"
  shows "(\<forall>a\<in>set (butlast (objectStack s')). within_bound (heap s') a)
       \<and> (\<forall>a. currentObject s' = Some a \<longrightarrow>
             overshoot (heap s') a \<le> 254
             \<and> (\<not> (awaits_record s \<and> record_tag s = 13) \<longrightarrow> within_bound (heap s') a)
             \<and> (\<forall>ts. memberTypes (heap s' ! a) = Some ts
                      \<and> length ts \<le> length (memberValues (heap s' ! a))
                  \<longrightarrow> step s' = Continue (s'\<lparr>objectStack := butlast (objectStack s')\<rparr>)))"
proof -
  have w: "wf_state s" by (rule state_after_wf[OF assms(1)])
  have w': "wf_state s'" by (rule step_wf[OF w assms(2)])
  show ?thesis
    using w' step_tip[OF w assms(2)] step_pop[of s']
    by (auto simp: wf_state_def)
qed

lemma null256_reach:
  "state_after 2 null256_stream = Some null256_state"
  "step null256_state = Continue null256_state_after"
  by code_simp+

theorem stack_bounds_after_round_witness:
  "state_after 2 null256_stream = Some null256_state
   \<and> step null256_state = Continue null256_state_after
   \<and> currentObject null256_state_after = Some 0
   \<and> memberTypes (heap null256_state_after ! 0) = Some [1]
   \<and> overshoot (heap null256_state_after) 0 \<le> 254
   \<and> step null256_state_after
       = Continue (null256_state_after\<lparr>objectStack := butlast (objectStack null256_state_after)\<rparr>)"
proof -
  have c: "currentObject null256_state_after = Some 0"
    by (simp add: null256_state_after_def currentObject_def)
  have t: "memberTypes (heap null256_state_after ! 0) = Some [1]"
    "length [1::int] \<le> length (memberValues (heap null256_state_after ! 0))"
    by (simp_all add: null256_state_after_def)
  from stack_bounds_after_round[OF null256_reach] c t null256_reach show ?thesis
    by blast
qed

text \<open>
  The claim as stated fails on \<open>null256_stream\<close>: its class has one member, the
  ObjectNull256 record appends five nulls, and after that round the composite on the stack
  has five member values for one member type.
\<close>

theorem stack_bound_null256_counterexample:
  "state_after 2 null256_stream = Some null256_state
   \<and> step null256_state = Continue null256_state_after
   \<and> objectStack null256_state_after = [0]
   \<and> memberTypes (heap null256_state_after ! 0) = Some [1]
   \<and> length (memberValues (heap null256_state_after ! 0)) = 5
   \<and> \<not> within_bound (heap null256_state_after) 0"
  using null256_reach
  by (simp add: null256_state_after_def within_bound_def)

section \<open>Fix-ups of references\<close>



lemma length_set_value [simp]: "length (set_value a i v h) = length h"
  by (simp add: set_value_def)

lemma length_run_reference [simp]: "length (run_reference objs h r) = length h"
  by (simp add: run_reference_def split_beta)

lemma length_fixups [simp]: "length (foldl (run_reference objs) h rs) = length h"
  by (induction rs arbitrary: h) simp_all










section \<open>ClassWithId\<close>

lemma map_of_update_same: "map_of (AList.update k v al) k = Some v"
  by (simp add: update_conv')

lemma map_of_update_other: "k' \<noteq> k \<Longrightarrow> map_of (AList.update k v al) k' = map_of al k'"
  by (simp add: update_conv')

lemma step_ClassWithId:
  assumes "awaits_record s" "record_tag s = 1" "classWithId_ids (after_tag s) = (objId, metadataId)"
  shows "step s = Continue (register_composite True
           ((spread (heap s) (map_of (objects s) metadataId))\<lparr>memberValues := [], objectId := objId\<rparr>)
           (s\<lparr>rdr := snd (read32 (snd (read32 (rdr (after_tag s)))))\<rparr>))"
  using assms(3)
  by (simp add: step_awaits_record[OF assms(1)] read_record_tag assms(2) record_ClassWithId_def
      classWithId_ids_def split_beta Let_def after_tag_def)

text \<open>
  Claim C9, as the code has it. Processing a ClassWithId record clones the composite stored
  at \<^verbatim>\<open>objects[metadataId]\<close> and clears memberValues on the clone only. The composite
  that was stored under metadataId is left as it was, except when it is the current stack
  tip: then the record appends the clone to its memberValues, as to any parent. The table
  still maps metadataId to it, except when the record's object id equals metadataId: then
  the clone takes its place in the table.
\<close>

theorem class_with_id_clone_frame:
  assumes "state_after n str = Some s" and "awaits_record s" and "record_tag s = 1"
    and "classWithId_ids (after_tag s) = (objId, metadataId)"
    and "map_of (objects s) metadataId = Some (JObj a)"
  shows "case step s of
           Continue s' \<Rightarrow>
             heap s' ! length (heap s) = (heap s ! a)\<lparr>memberValues := [], objectId := objId\<rparr>
             \<and> heap s' ! a =
                 (if currentObject s = Some a
                  then (heap s ! a)\<lparr>memberValues :=
                         memberValues (heap s ! a) @ [JObj (length (heap s))]\<rparr>
                  else heap s ! a)
             \<and> map_of (objects s') metadataId =
                 (if objId = metadataId then Some (JObj (length (heap s))) else Some (JObj a))
         | _ \<Rightarrow> False"
proof -
  let ?n = "length (heap s)"
  let ?cls = "(heap s ! a)\<lparr>memberValues := [], objectId := objId\<rparr>"
  have w: "wf_state s" by (rule state_after_wf[OF assms(1)])
  have "(metadataId, JObj a) \<in> set (objects s)"
    using assms(5) by (rule map_of_SomeD)
  then have al: "a < ?n" using w by (auto simp: wf_state_def)
  have stk: "\<forall>x\<in>set (objectStack s). x < ?n" using w by (simp add: wf_state_def)
  have sp: "spread (heap s) (map_of (objects s) metadataId) = heap s ! a"
    by (simp add: spread_def assms(5))
  have st: "step s = Continue (register_composite True ?cls
              (s\<lparr>rdr := snd (read32 (snd (read32 (rdr (after_tag s)))))\<rparr>))"
    using step_ClassWithId[OF assms(2,3,4)] by (simp add: sp)
  have reg: "registered True ?cls s (register_composite True ?cls
              (s\<lparr>rdr := snd (read32 (snd (read32 (rdr (after_tag s)))))\<rparr>))"
    by (rule register_composite_registered)
  let ?s' = "register_composite True ?cls
              (s\<lparr>rdr := snd (read32 (snd (read32 (rdr (after_tag s)))))\<rparr>)"
  have new: "heap ?s' ! ?n = ?cls"
  proof (cases "currentObject s")
    case None
    then show ?thesis using reg by (simp add: registered_def)
  next
    case (Some t)
    then have "t \<in> set (objectStack s)" by (auto simp: currentObject_def split: if_splits)
    then have "t \<noteq> ?n" using stk by auto
    then show ?thesis using reg Some by (simp add: registered_def push_values_other)
  qed
  have old: "heap ?s' ! a =
                 (if currentObject s = Some a
                  then (heap s ! a)\<lparr>memberValues := memberValues (heap s ! a) @ [JObj ?n]\<rparr>
                  else heap s ! a)"
  proof (cases "currentObject s")
    case None
    then show ?thesis using reg al by (simp add: registered_def nth_append)
  next
    case (Some t)
    show ?thesis
    proof (cases "t = a")
      case True
      then show ?thesis
        using reg Some al by (simp add: registered_def push_values_same nth_append)
    next
      case False
      then show ?thesis
        using reg Some al by (simp add: registered_def push_values_other nth_append)
    qed
  qed
  have tab: "map_of (objects ?s') metadataId =
                 (if objId = metadataId then Some (JObj ?n) else Some (JObj a))"
    using reg assms(5) by (simp add: registered_def map_of_update_same map_of_update_other)
  show ?thesis
    unfolding st using new old tab by simp
qed

lemma node_reach: "state_after 2 node_stream = Some node_state"
  by code_simp

lemma node_at_record:
  "awaits_record node_state" "record_tag node_state = 1"
  "classWithId_ids (after_tag node_state) = (2, 1)"
  by code_simp+

lemma node_step: "step node_state = Continue node_state_after"
  by code_simp

theorem class_with_id_clone_frame_witness:
  "state_after 2 node_stream = Some node_state
   \<and> awaits_record node_state \<and> record_tag node_state = 1
   \<and> classWithId_ids (after_tag node_state) = (2, 1)
   \<and> map_of (objects node_state) 1 = Some (JObj 0)
   \<and> currentObject node_state = Some 0
   \<and> heap node_state_after ! 1 = (heap node_state ! 0)\<lparr>memberValues := [], objectId := 2\<rparr>
   \<and> heap node_state_after ! 0 = (heap node_state ! 0)\<lparr>memberValues := [JObj 1]\<rparr>
   \<and> map_of (objects node_state_after) 1 = Some (JObj 0)"
proof -
  have m: "map_of (objects node_state) 1 = Some (JObj 0)" by (simp add: node_state_def)
  have c: "currentObject node_state = Some 0" by (simp add: node_state_def currentObject_def)
  have l: "length (heap node_state) = 1" "memberValues (heap node_state ! 0) = []"
    by (simp_all add: node_state_def)
  from class_with_id_clone_frame[OF node_reach node_at_record m]
  have "heap node_state_after ! length (heap node_state)
          = (heap node_state ! 0)\<lparr>memberValues := [], objectId := 2\<rparr>
        \<and> heap node_state_after ! 0 =
                 (if currentObject node_state = Some 0
                  then (heap node_state ! 0)\<lparr>memberValues :=
                         memberValues (heap node_state ! 0) @ [JObj (length (heap node_state))]\<rparr>
                  else heap node_state ! 0)
        \<and> map_of (objects node_state_after) 1 =
                 (if (2::int) = 1 then Some (JObj (length (heap node_state))) else Some (JObj 0))"
    by (simp add: node_step)
  then show ?thesis
    using node_reach node_at_record m c by (simp add: l)
qed

text \<open>
  The claim as stated fails on \<open>node_stream\<close>, a class whose member is an instance of the
  same class: the ClassWithId record with metadata id 1 is read while class 1 is the stack
  tip, and the memberValues of the entry under id 1 go from empty to the clone.
\<close>

theorem class_with_id_changes_entry_counterexample:
  "state_after 2 node_stream = Some node_state
   \<and> record_tag node_state = 1
   \<and> classWithId_ids (after_tag node_state) = (2, 1)
   \<and> step node_state = Continue node_state_after
   \<and> map_of (objects node_state) 1 = Some (JObj 0)
   \<and> map_of (objects node_state_after) 1 = Some (JObj 0)
   \<and> memberValues (heap node_state ! 0) = []
   \<and> memberValues (heap node_state_after ! 0) = [JObj 1]"
  using node_reach node_at_record(2,3) node_step
  by (simp add: node_state_def node_state_after_def)

section \<open>Reading past the end of the input\<close>

lemma js_slice_past_end: "int (length xs) \<le> start \<Longrightarrow> js_slice xs start fin = []"
  by (simp add: js_slice_def Let_def min_def)

lemma read_exhausted:
  assumes "exhausted r"
  shows "read bits r = (0, r\<lparr>bit_pos := bit_pos r + bits\<rparr>)"
proof -
  have "int (length (bytes r)) \<le> js_floor_div8 (bit_pos r)"
    using assms by (simp add: exhausted_def js_floor_div8_def)
  then have "js_slice (bytes r) (js_floor_div8 (bit_pos r)) (js_ceil_div8 (bit_pos r + bits)) = []"
    by (rule js_slice_past_end)
  then show ?thesis
    by (simp add: read_def Let_def reduce_def js_sar_def js_and_def toInt32_def)
qed

lemma exhausted_advance: "exhausted r \<Longrightarrow> 0 \<le> k \<Longrightarrow> exhausted (r\<lparr>bit_pos := bit_pos r + k\<rparr>)"
  by (simp add: exhausted_def)

lemma read_exhausted_snd: "exhausted r \<Longrightarrow> 0 \<le> bits \<Longrightarrow> exhausted (snd (read bits r))"
  by (simp add: read_exhausted exhausted_advance)

lemma read_exhausted_fst: "exhausted r \<Longrightarrow> fst (read bits r) = 0"
  by (simp add: read_exhausted)

lemma read8_exhausted: "exhausted r \<Longrightarrow> fst (read8 r) = 0 \<and> exhausted (snd (read8 r))"
  by (simp add: read8_def read_exhausted_fst read_exhausted_snd)

lemma read16_exhausted: "exhausted r \<Longrightarrow> exhausted (snd (read16 r))"
  by (simp add: read16_def read_exhausted_snd)

lemma read32_exhausted: "exhausted r \<Longrightarrow> exhausted (snd (read32 r))"
  by (simp add: read32_def read_exhausted_snd)

lemma read64_exhausted: "exhausted r \<Longrightarrow> exhausted (snd (read64 r))"
  by (simp add: read64_def read_exhausted_snd)

lemma readLength_exhausted:
  assumes "exhausted r"
  shows "readLength r = (0, r\<lparr>bit_pos := bit_pos r + 8\<rparr>)"
proof -
  have e7: "exhausted (r\<lparr>bit_pos := bit_pos r + 7\<rparr>)"
    using assms by (rule exhausted_advance) simp
  show ?thesis
    by (simp add: readLength_def eval_nat_numeral read_exhausted[OF assms] read_exhausted[OF e7]
        js_shl_def toInt32_def)
qed

lemma readLengthPrefixedString_exhausted:
  "exhausted r \<Longrightarrow> exhausted (snd (readLengthPrefixedString r))"
  by (simp add: readLengthPrefixedString_def readLength_exhausted readByteArray_def
      exhausted_def)

lemma deserializeHeader_exhausted: "exhausted r \<Longrightarrow> exhausted (snd (deserializeHeader r))"
  by (simp add: deserializeHeader_def split_beta read32_exhausted)

lemma deserializePrimitiveType_exhausted:
  assumes "exhausted r" "deserializePrimitiveType r t = Inr (v, r')"
  shows "exhausted r'"
proof (cases t)
  case (AINum k)
  have s: "exhausted (snd (read 32 r))" "exhausted (snd (read 32 (snd (read 32 r))))"
    using assms(1) by (simp_all add: read_exhausted_snd)
  show ?thesis
    using assms read8_exhausted[OF assms(1)] read16_exhausted[OF assms(1)]
      read32_exhausted[OF assms(1)] read64_exhausted[OF assms(1)]
      readLengthPrefixedString_exhausted[OF assms(1)] s
    by (auto simp: deserializePrimitiveType_def AINum split_beta readDouble_def readSingle_def
        split: if_splits)
qed (use assms in \<open>auto simp: deserializePrimitiveType_def\<close>)

lemma step_exhausted:
  assumes "exhausted (rdr s)"
  shows "case step s of
           Throw e \<Rightarrow> True
         | Continue s' \<Rightarrow> exhausted (rdr s')
         | Finish h c \<Rightarrow> False"
proof -
  have tag: "record_tag s = 0"
    using read8_exhausted[OF assms] by (simp add: record_tag_def)
  have rr: "read_record s = record_Header (after_tag s)"
    by (simp add: read_record_tag tag)
  have "exhausted (rdr (after_tag s))"
    using read8_exhausted[OF assms] by (simp add: after_tag_def)
  then have hd: "case read_record s of
           Throw e \<Rightarrow> True
         | Continue s' \<Rightarrow> exhausted (rdr s')
         | Finish h c \<Rightarrow> False"
    by (simp add: rr record_Header_def split_beta deserializeHeader_exhausted)
  have pm: "\<And>a i. case primitive_member a i s of
           Throw e \<Rightarrow> True
         | Continue s' \<Rightarrow> exhausted (rdr s')
         | Finish h c \<Rightarrow> False"
    using deserializePrimitiveType_exhausted[OF assms]
    by (auto simp: primitive_member_def split: option.splits sum.splits)
  show ?thesis
    using hd pm assms
    by (auto simp: step_def Let_def split: option.splits)
qed

lemma loop_exhausted:
  assumes "loop s = Some y"
  shows "exhausted (rdr s) \<longrightarrow> (\<exists>e. y = Inl e)"
proof (rule loop.raw_induct[where P = "\<lambda>s y. exhausted (rdr s) \<longrightarrow> (\<exists>e. y = Inl e)", OF _ assms])
  fix loop' :: "state \<Rightarrow> (error + composite list \<times> jsval) option" and s sa
  assume ih: "\<And>x y. loop' x = Some y \<Longrightarrow> exhausted (rdr x) \<longrightarrow> (\<exists>e. y = Inl e)"
    and st: "(case step s of Throw e \<Rightarrow> Some (Inl e) | Continue s' \<Rightarrow> loop' s'
              | Finish h c \<Rightarrow> Some (Inr (h, c))) = Some sa"
  show "exhausted (rdr s) \<longrightarrow> (\<exists>e. sa = Inl e)"
  proof
    assume e: "exhausted (rdr s)"
    from step_exhausted[OF e] st ih show "\<exists>e. sa = Inl e"
      by (cases "step s") auto
  qed
qed

text \<open>
  Claim C8, as the code has it. The reader never checks its cursor against the end of the
  input: a read at or past the end yields zero. Once the input is exhausted, whatever the
  number of rounds, deserialize returns no result, partial or complete; it raises no
  truncated-input error, but either fails with one of its other errors or never
  terminates, since a zero tag is the header record.
\<close>

theorem exhausted_input_returns_nothing:
  assumes "state_after n str = Some s" and "exhausted (rdr s)"
  shows "fst (read8 (rdr s)) = 0 \<and> (\<forall>v. deserialize depth str \<noteq> Some (Inr v))"
proof -
  have "\<And>hc. loop s \<noteq> Some (Inr hc)"
    using loop_exhausted[of s] assms(2) by auto
  then show ?thesis
    using read8_exhausted[OF assms(2)]
    by (auto simp: deserialize_state_after[OF assms(1)] split: option.splits sum.splits)
qed

lemma step_idle:
  assumes "objectStack s = []" "exhausted (rdr s)"
  shows "\<exists>s'. step s = Continue s' \<and> objectStack s' = [] \<and> exhausted (rdr s')"
proof -
  have tag: "record_tag s = 0"
    using read8_exhausted[OF assms(2)] by (simp add: record_tag_def)
  have e: "exhausted (rdr (after_tag s))"
    using read8_exhausted[OF assms(2)] by (simp add: after_tag_def)
  have "step s = record_Header (after_tag s)"
    using assms(1) by (simp add: step_def currentObject_def read_record_tag tag)
  then show ?thesis
    using e assms(1)
    by (simp add: record_Header_def split_beta deserializeHeader_exhausted after_tag_def)
qed

lemma loop_idle_aux:
  assumes "loop s = Some y"
  shows "\<not> (objectStack s = [] \<and> exhausted (rdr s))"
proof (rule loop.raw_induct[where P = "\<lambda>s y. \<not> (objectStack s = [] \<and> exhausted (rdr s))",
      OF _ assms])
  fix loop' :: "state \<Rightarrow> (error + composite list \<times> jsval) option" and s sa
  assume ih: "\<And>x y. loop' x = Some y \<Longrightarrow> \<not> (objectStack x = [] \<and> exhausted (rdr x))"
    and st: "(case step s of Throw e \<Rightarrow> Some (Inl e) | Continue s' \<Rightarrow> loop' s'
              | Finish h c \<Rightarrow> Some (Inr (h, c))) = Some sa"
  show "\<not> (objectStack s = [] \<and> exhausted (rdr s))"
  proof
    assume a: "objectStack s = [] \<and> exhausted (rdr s)"
    then obtain s' where s': "step s = Continue s'" "objectStack s' = []" "exhausted (rdr s')"
      using step_idle by blast
    with st ih show False by auto
  qed
qed

lemma loop_idle: "objectStack s = [] \<Longrightarrow> exhausted (rdr s) \<Longrightarrow> loop s = None"
  using loop_idle_aux[of s] by (cases "loop s") auto


lemma truncated_reach:
  "state_after 1 truncated_stream \<noteq> None"
  "objectStack (the (state_after 1 truncated_stream)) = []"
  "exhausted (rdr (the (state_after 1 truncated_stream)))"
  by code_simp+

theorem exhausted_input_returns_nothing_witness:
  "state_after 1 truncated_stream \<noteq> None
   \<and> exhausted (rdr (the (state_after 1 truncated_stream)))
   \<and> fst (read8 (rdr (the (state_after 1 truncated_stream)))) = 0
   \<and> deserialize 0 truncated_stream \<noteq> Some (Inr (PSimple JUndefined))"
proof -
  have h: "state_after 1 truncated_stream = Some (the (state_after 1 truncated_stream))"
    using truncated_reach(1) by simp
  from exhausted_input_returns_nothing[OF h truncated_reach(3), of 0] truncated_reach
  show ?thesis by simp
qed

text \<open>
  The claim as stated fails on the one-byte input 0x00, which ends in the middle of the
  header record: deserialize raises nothing and never returns.
\<close>

theorem truncated_input_no_error_counterexample:
  "bitReader truncated_stream = Inr \<lparr>bytes = [0], bit_pos = 0\<rparr>
   \<and> deserialize 0 truncated_stream = None"
proof -
  have h: "state_after 1 truncated_stream = Some (the (state_after 1 truncated_stream))"
    using truncated_reach(1) by simp
  have "loop (the (state_after 1 truncated_stream)) = None"
    by (rule loop_idle[OF truncated_reach(2,3)])
  then have "deserialize 0 truncated_stream = None"
    by (simp add: deserialize_state_after[OF h])
  moreover have "bitReader truncated_stream = Inr \<lparr>bytes = [0], bit_pos = 0\<rparr>"
    by (simp add: bitReader_def truncated_stream_def)
  ultimately show ?thesis by simp
qed

section \<open>The projection of a class composite\<close>

text \<open>
  The loop of \<^verbatim>\<open>mapMembers\<close> over the member names. Where no name is \<^verbatim>\<open>_items\<close>,
  \<^verbatim>\<open>value__\<close> or \<^verbatim>\<open>__proto__\<close> and the members project, the result is a mapping
  whose keys are the member names; at the first name \<^verbatim>\<open>_items\<close> or \<^verbatim>\<open>value__\<close> the
  projection of that member is the whole result.
\<close>

lemma keys_assign_member:
  "nm \<noteq> ''__proto__'' \<Longrightarrow> fst ` set (assign_member nm v m) = insert nm (fst ` set m)"
  by (simp add: assign_member_def dom_update)

lemma members_loop_plain:
  assumes "\<forall>nm\<in>set nms. nm \<noteq> ''_items'' \<and> nm \<noteq> ''value__'' \<and> nm \<noteq> ''__proto__''"
    and "\<forall>j<length nms. f (value_at vs (i + j)) \<noteq> None"
  shows "\<exists>m'. members_loop f nms vs i m = Some (PMap m') \<and> fst ` set m' = fst ` set m \<union> set nms"
  using assms
proof (induction nms arbitrary: i m)
  case Nil
  then show ?case by simp
next
  case (Cons nm nms)
  from Cons.prems(2) have "f (value_at vs (i + 0)) \<noteq> None" by blast
  then obtain x where x: "f (value_at vs i) = Some x" by auto
  have rest: "\<forall>j<length nms. f (value_at vs (Suc i + j)) \<noteq> None"
    using Cons.prems(2) by fastforce
  have nm: "nm \<noteq> ''_items''" "nm \<noteq> ''value__''" "nm \<noteq> ''__proto__''"
    using Cons.prems(1) by simp_all
  from Cons.IH[OF _ rest, of "assign_member nm x m"] Cons.prems(1)
  obtain m' where m': "members_loop f nms vs (Suc i) (assign_member nm x m) = Some (PMap m')"
      "fst ` set m' = fst ` set (assign_member nm x m) \<union> set nms"
    by auto
  show ?case
    using m' nm x by (simp add: keys_assign_member)
qed

lemma members_loop_collapse:
  assumes "\<forall>nm\<in>set pre. nm \<noteq> ''_items'' \<and> nm \<noteq> ''value__''"
    and "\<forall>j<length pre. f (value_at vs (i + j)) \<noteq> None"
    and "nm = ''_items'' \<or> nm = ''value__''"
  shows "members_loop f (pre @ nm # post) vs i m = f (value_at vs (i + length pre))"
  using assms(1,2)
proof (induction pre arbitrary: i m)
  case Nil
  then show ?case using assms(3) by auto
next
  case (Cons p pre)
  from Cons.prems(2) have "f (value_at vs (i + 0)) \<noteq> None" by blast
  then obtain x where x: "f (value_at vs i) = Some x" by auto
  have rest: "\<forall>j<length pre. f (value_at vs (Suc i + j)) \<noteq> None"
    using Cons.prems(2) by fastforce
  show ?case
    using Cons.IH[OF _ rest, of "assign_member p x m"] Cons.prems(1) x by simp
qed

lemma proto_reach: "state_after 4 proto_stream \<noteq> None"
  "awaits_record (the (state_after 4 proto_stream))"
  "record_tag (the (state_after 4 proto_stream)) = 11"
  "memberNames (heap (the (state_after 4 proto_stream)) ! 0) = Some [''__proto__'']"
  "memberValues (heap (the (state_after 4 proto_stream)) ! 0) = [JNum 1]"
  "project_root 2
     (foldl (run_reference (objects (the (state_after 4 proto_stream))))
        (heap (the (state_after 4 proto_stream)))
        (references (the (state_after 4 proto_stream))),
      first_enumerated (objects (the (state_after 4 proto_stream))))
   = Inr (PMap [])"
  by code_simp+

text \<open>
  The list collapse on \<open>items_stream\<close>: the member \<^verbatim>\<open>_items\<close> is the array
  \<open>[1, 2, 3]\<close>, its sibling \<^verbatim>\<open>_size\<close> is 3, and the projection is the array.
\<close>

lemma items_collapse_example:
  "deserialize 2 items_stream = Some (Inr (PSimple (JArr [JNum 1, JNum 2, JNum 3])))"
proof -
  have r1: "bitReader items_stream = Inr \<lparr>bytes = map of_char items_stream, bit_pos = 0\<rparr>"
    by (simp add: bitReader_def items_stream_def)
  have r2: "(case run 7 (initial_state \<lparr>bytes = map of_char items_stream, bit_pos = 0\<rparr>) of
               Finish h c \<Rightarrow> Some (project_root 2 (h, c)) | _ \<Rightarrow> None)
            = Some (Inr (PSimple (JArr [JNum 1, JNum 2, JNum 3])))"
    by code_simp
  then obtain h c where hc:
      "run 7 (initial_state \<lparr>bytes = map of_char items_stream, bit_pos = 0\<rparr>) = Finish h c"
    by (cases "run 7 (initial_state \<lparr>bytes = map of_char items_stream, bit_pos = 0\<rparr>)")
      simp_all
  show ?thesis
    using r2 by (simp add: deserialize_def r1 run_Finish_loop[OF hc] hc)
qed

text \<open>
  Claim C5 says that the projection of a class composite is a mapping whose keys are
  exactly its memberNames (unless a member is named \<^verbatim>\<open>_items\<close> or \<^verbatim>\<open>value__\<close>). The code
  assigns \<^verbatim>\<open>members[name] = ...\<close> on an object literal, which for the name
  \<^verbatim>\<open>__proto__\<close> creates no property: on \<open>proto_stream\<close>, a class whose only member
  is named \<^verbatim>\<open>__proto__\<close> and holds 1, deserialize returns the empty mapping.
\<close>

theorem proto_member_dropped:
  "memberNames (heap (the (state_after 4 proto_stream)) ! 0) = Some [''__proto__'']
   \<and> memberValues (heap (the (state_after 4 proto_stream)) ! 0) = [JNum 1]
   \<and> record_tag (the (state_after 4 proto_stream)) = 11
   \<and> deserialize 2 proto_stream = Some (Inr (PMap []))"
proof -
  have h: "state_after 4 proto_stream = Some (the (state_after 4 proto_stream))"
    using proto_reach(1) by simp
  have "deserialize 2 proto_stream = Some (Inr (PMap []))"
    by (simp add: deserialize_state_after[OF h]
        loop_Finish[OF step_MessageEnd[OF proto_reach(2,3)]] proto_reach(6))
  then show ?thesis
    using proto_reach(3,4,5) by simp
qed

end
